theory Spec2Isabelle
  imports Complex_Main "HOL-Library.AList"
begin

section \<open>Numeric values\<close>

text \<open>
  The values that travel through \<^verbatim>\<open>flamedisx/inference.py\<close> are floating-point numbers
  (Python floats and numpy scalars).  The code tests them for NaN, compares them with the
  IEEE comparison operators and produces NaN and infinity literals, so these three kinds of
  special value are part of the model.  Finite values are taken as real numbers: rounding,
  overflow to infinity and the sign of zero are left out.
\<close>

datatype pyfloat = NaN | NInf | Fin real | PInf

fun isnan :: "pyfloat \<Rightarrow> bool" where
  "isnan NaN = True"
| "isnan NInf = False"
| "isnan (Fin a) = False"
| "isnan PInf = False"

text \<open>\<open>fle a b\<close> is \<^verbatim>\<open>a <= b\<close>, \<open>flt a b\<close> is \<^verbatim>\<open>a < b\<close>, \<open>feq a b\<close> is \<^verbatim>\<open>a == b\<close>:
  each is false as soon as one side is NaN.\<close>

fun fle :: "pyfloat \<Rightarrow> pyfloat \<Rightarrow> bool" where
  "fle NaN b = False"
| "fle NInf NaN = False"
| "fle NInf NInf = True"
| "fle NInf (Fin b) = True"
| "fle NInf PInf = True"
| "fle (Fin a) NaN = False"
| "fle (Fin a) NInf = False"
| "fle (Fin a) (Fin b) = (a \<le> b)"
| "fle (Fin a) PInf = True"
| "fle PInf NaN = False"
| "fle PInf NInf = False"
| "fle PInf (Fin b) = False"
| "fle PInf PInf = True"

fun flt :: "pyfloat \<Rightarrow> pyfloat \<Rightarrow> bool" where
  "flt NaN b = False"
| "flt NInf NaN = False"
| "flt NInf NInf = False"
| "flt NInf (Fin b) = True"
| "flt NInf PInf = True"
| "flt (Fin a) NaN = False"
| "flt (Fin a) NInf = False"
| "flt (Fin a) (Fin b) = (a < b)"
| "flt (Fin a) PInf = True"
| "flt PInf b = False"

definition feq :: "pyfloat \<Rightarrow> pyfloat \<Rightarrow> bool" where
  "feq a b = (\<not> isnan a \<and> \<not> isnan b \<and> a = b)"

fun fneg :: "pyfloat \<Rightarrow> pyfloat" where
  "fneg NaN = NaN"
| "fneg NInf = PInf"
| "fneg (Fin a) = Fin (- a)"
| "fneg PInf = NInf"

fun fabs :: "pyfloat \<Rightarrow> pyfloat" where
  "fabs NaN = NaN"
| "fabs NInf = PInf"
| "fabs (Fin a) = Fin \<bar>a\<bar>"
| "fabs PInf = PInf"

fun fadd :: "pyfloat \<Rightarrow> pyfloat \<Rightarrow> pyfloat" where
  "fadd NaN b = NaN"
| "fadd NInf NaN = NaN"
| "fadd NInf NInf = NInf"
| "fadd NInf (Fin b) = NInf"
| "fadd NInf PInf = NaN"
| "fadd (Fin a) NaN = NaN"
| "fadd (Fin a) NInf = NInf"
| "fadd (Fin a) (Fin b) = Fin (a + b)"
| "fadd (Fin a) PInf = PInf"
| "fadd PInf NaN = NaN"
| "fadd PInf NInf = NaN"
| "fadd PInf (Fin b) = PInf"
| "fadd PInf PInf = PInf"

definition fsub :: "pyfloat \<Rightarrow> pyfloat \<Rightarrow> pyfloat" where
  "fsub a b = fadd a (fneg b)"

text \<open>An infinity multiplied by a finite number: NaN for zero, else the signed infinity.\<close>

definition inf_times :: "bool \<Rightarrow> real \<Rightarrow> pyfloat" where
  "inf_times positive a =
     (if a = 0 then NaN else if (0 < a) = positive then PInf else NInf)"

fun fmul :: "pyfloat \<Rightarrow> pyfloat \<Rightarrow> pyfloat" where
  "fmul NaN b = NaN"
| "fmul NInf NaN = NaN"
| "fmul NInf NInf = PInf"
| "fmul NInf (Fin b) = inf_times False b"
| "fmul NInf PInf = NInf"
| "fmul (Fin a) NaN = NaN"
| "fmul (Fin a) NInf = inf_times False a"
| "fmul (Fin a) (Fin b) = Fin (a * b)"
| "fmul (Fin a) PInf = inf_times True a"
| "fmul PInf NaN = NaN"
| "fmul PInf NInf = NInf"
| "fmul PInf (Fin b) = inf_times True b"
| "fmul PInf PInf = PInf"

text \<open>The messages handed to \<^verbatim>\<open>fail\<close>: scipy's status and message, or Minuit's
  two flags (call limit reached, distance to minimum too large).\<close>

datatype fail_message =
    ScipyFailed int string
  | TfpFailed
  | MigradFailed bool bool

datatype error =
    ValueError
  | AssertionError
  | KeyError
  | IndexError
  | TypeError
  | AttributeError
  | ZeroDivisionError
  | NotImplementedError
  | OptimizerFailure fail_message

text \<open>Python's \<^verbatim>\<open>a / b\<close> on floats raises when the divisor is zero, whatever the dividend.\<close>

fun truediv :: "pyfloat \<Rightarrow> pyfloat \<Rightarrow> error + pyfloat" where
  "truediv a (Fin b) =
     (if b = 0 then Inl ZeroDivisionError
      else Inr (case a of NaN \<Rightarrow> NaN | NInf \<Rightarrow> inf_times False b
                | Fin x \<Rightarrow> Fin (x / b) | PInf \<Rightarrow> inf_times True b))"
| "truediv a NaN = Inr NaN"
| "truediv a PInf = Inr (case a of Fin x \<Rightarrow> Fin 0 | _ \<Rightarrow> NaN)"
| "truediv a NInf = Inr (case a of Fin x \<Rightarrow> Fin 0 | _ \<Rightarrow> NaN)"

text \<open>\<^verbatim>\<open>a ** 0.5\<close> on numpy scalars: NaN below zero, and both infinities go to \<open>+inf\<close>.\<close>

fun pow_half :: "pyfloat \<Rightarrow> pyfloat" where
  "pow_half NaN = NaN"
| "pow_half NInf = PInf"
| "pow_half (Fin a) = (if a < 0 then NaN else Fin (sqrt a))"
| "pow_half PInf = PInf"

text \<open>The builtins \<^verbatim>\<open>max(a, b)\<close> and \<^verbatim>\<open>min(a, b)\<close> keep the first argument unless the
  second compares strictly beyond it; \<^verbatim>\<open>np.maximum\<close> propagates NaN.\<close>

definition py_max :: "pyfloat \<Rightarrow> pyfloat \<Rightarrow> pyfloat" where
  "py_max a b = (if flt a b then b else a)"

definition py_min :: "pyfloat \<Rightarrow> pyfloat \<Rightarrow> pyfloat" where
  "py_min a b = (if flt b a then b else a)"

definition np_maximum :: "pyfloat \<Rightarrow> pyfloat \<Rightarrow> pyfloat" where
  "np_maximum a b = (if isnan a \<or> isnan b then NaN else if flt a b then b else a)"

definition LOWER_RATE_MULTIPLIER_BOUND :: pyfloat where
  "LOWER_RATE_MULTIPLIER_BOUND = Fin (1 / 10 ^ 9)"

section \<open>Dictionaries\<close>

text \<open>
  A Python dict is an association list with distinct keys in insertion order:
  \<^verbatim>\<open>d[k] = v\<close> is \<^const>\<open>AList.update\<close> (in place for a known key, at the end for a new
  one), \<^verbatim>\<open>k in d\<close> and \<^verbatim>\<open>d[k]\<close> are \<^const>\<open>map_of\<close>.
\<close>

type_synonym 'v dict = "(string \<times> 'v) list"

definition keys :: "'v dict \<Rightarrow> string list" where
  "keys d = map fst d"

text \<open>\<^verbatim>\<open>dict(pairs)\<close> and dict comprehensions: entries are stored one after the other.\<close>

definition dict_of :: "(string \<times> 'v) list \<Rightarrow> 'v dict" where
  "dict_of ps = fold (\<lambda>(k, v). AList.update k v) ps []"

text \<open>\<^verbatim>\<open>{**a, **b}\<close>\<close>

definition dict_merge :: "'v dict \<Rightarrow> 'v dict \<Rightarrow> 'v dict" where
  "dict_merge a b = fold (\<lambda>(k, v). AList.update k v) b a"

definition getitem :: "'v dict \<Rightarrow> string \<Rightarrow> error + 'v" where
  "getitem d k = (case map_of d k of None \<Rightarrow> Inl KeyError | Some v \<Rightarrow> Inr v)"

definition setdefault :: "'v dict \<Rightarrow> string \<Rightarrow> 'v \<Rightarrow> 'v dict" where
  "setdefault d k v = (case map_of d k of None \<Rightarrow> d @ [(k, v)] | Some _ \<Rightarrow> d)"

definition endswith :: "string \<Rightarrow> string \<Rightarrow> bool" where
  "endswith s suf =
     (length suf \<le> length s \<and> drop (length s - length suf) s = suf)"

text \<open>\<^verbatim>\<open>xs.index(k)\<close>: the first position of \<open>k\<close>, or ValueError.\<close>

fun list_index :: "'a list \<Rightarrow> 'a \<Rightarrow> error + nat" where
  "list_index [] k = Inl ValueError"
| "list_index (x # xs) k =
     (if x = k then Inr 0
      else case list_index xs k of Inl e \<Rightarrow> Inl e | Inr i \<Rightarrow> Inr (Suc i))"

section \<open>The objective and its collaborators\<close>

type_synonym params = "pyfloat dict"
type_synonym bound = "pyfloat option \<times> pyfloat option"

text \<open>
  The likelihood is an external collaborator.  \<open>minus_ll n params omit_grads\<close> is what
  \<^verbatim>\<open>lf.minus_ll(**params, omit_grads=...)\<close> returns (value and gradient) when it has been
  invoked \<open>n\<close> times before: the collaborator may be stateful, so nothing is assumed
  about two invocations at the same point.  \<open>hessian_std params\<close> stands for
  \<^verbatim>\<open>fd.cov_to_std(lf.inverse_hessian(params))[0]\<close>, whose code is not part of this file.
\<close>

record likelihood =
  param_names :: "string list"
  minus_ll :: "nat \<Rightarrow> params \<Rightarrow> string list \<Rightarrow> pyfloat \<times> pyfloat list"
  hessian_std :: "params \<Rightarrow> pyfloat list"

record objective_result =
  res_fun :: pyfloat
  res_grad :: "pyfloat list"

record hist_entry =
  h_params :: params
  h_y :: pyfloat
  h_grad :: "pyfloat list"

text \<open>The three optimizers; the class attribute \<^verbatim>\<open>memoize\<close> is false for the
  TensorFlow classes only.\<close>

datatype backend = Scipy | TFP | Minuit

text \<open>The attributes that \<^verbatim>\<open>IntervalObjective.__init__\<close> adds.  \<open>wilks_crit\<close> is
  \<^verbatim>\<open>fd.wilks_crit\<close>, a function of the package that is not in this file.\<close>

record interval_ctx =
  target_parameter :: string
  bestfit :: params
  direction :: int
  critical_quantile :: pyfloat
  tol_multiplier :: pyfloat
  sigma_guess :: pyfloat
  t_ppf_arg :: "(pyfloat \<Rightarrow> pyfloat) option"
  t_ppf_grad_arg :: "(pyfloat \<Rightarrow> pyfloat) option"
  wilks_crit :: "pyfloat \<Rightarrow> pyfloat"
  tilt :: pyfloat
  bestfit_tp :: pyfloat
  m2ll_best :: pyfloat
  bestfit_tp_slope :: pyfloat

text \<open>The instance attributes set by \<^verbatim>\<open>__init__\<close>; \<open>fixed\<close> is \<^verbatim>\<open>self.fix\<close>,
  \<open>optimizer_error\<close> is \<^verbatim>\<open>optimizer_kwargs.get('error')\<close>, and \<open>interval\<close> is \<open>None\<close>
  for the classes that do not derive from \<^verbatim>\<open>IntervalObjective\<close>.\<close>

record objective =
  lf :: likelihood
  guess :: params
  fixed :: params
  bounds :: "bound dict"
  llr_tolerance :: pyfloat
  nan_val :: pyfloat
  get_lowlevel_result :: bool
  return_history :: bool
  use_hessian :: bool
  return_errors :: bool
  optimizer_error :: "pyfloat list option"
  allow_failure :: bool
  arg_names :: "string list"
  absolute_ftol :: pyfloat
  backend :: backend
  interval :: "interval_ctx option"

definition memoize :: "objective \<Rightarrow> bool" where
  "memoize self = (backend self \<noteq> TFP)"

text \<open>One constructor for each \<^verbatim>\<open>warnings.warn\<close> of the file.\<close>

datatype warning =
    ParamIsNaN string
  | ParamOutOfBounds string pyfloat bound
  | ObjectiveIsNaN "pyfloat list"
  | GradientIsNaN "pyfloat list" "pyfloat list"
  | EqualToGuess string pyfloat
  | FailureDemoted fail_message

text \<open>
  What changes while an objective lives: \<^verbatim>\<open>_cache\<close>, \<^verbatim>\<open>_history\<close>, the warnings
  emitted so far, and the log of the arguments of every invocation of \<^verbatim>\<open>lf.minus_ll\<close>.
\<close>

record ostate =
  cache :: "(pyfloat list \<times> objective_result) list"
  history :: "hist_entry list"
  warnings :: "warning list"
  lf_calls :: "params list"

definition warn :: "warning \<Rightarrow> ostate \<Rightarrow> ostate" where
  "warn w st = st\<lparr>warnings := warnings st @ [w]\<rparr>"

text \<open>
  The cache is a dict keyed by \<^verbatim>\<open>tuple(x)\<close>.  Two keys are the same key when they have
  the same length and their components compare equal with \<^verbatim>\<open>==\<close>; the components of
  \<^verbatim>\<open>tuple(x)\<close> are fresh scalars at every call, so a NaN never meets itself.
\<close>

definition key_eq :: "pyfloat list \<Rightarrow> pyfloat list \<Rightarrow> bool" where
  "key_eq a b = list_all2 feq a b"

fun cache_get :: "(pyfloat list \<times> 'r) list \<Rightarrow> pyfloat list \<Rightarrow> 'r option" where
  "cache_get [] x = None"
| "cache_get ((k, r) # c) x = (if key_eq k x then Some r else cache_get c x)"

fun cache_set :: "(pyfloat list \<times> 'r) list \<Rightarrow> pyfloat list \<Rightarrow> 'r \<Rightarrow> (pyfloat list \<times> 'r) list" where
  "cache_set [] x r = [(x, r)]"
| "cache_set ((k, r0) # c) x r =
     (if key_eq k x then (k, r) # c else (k, r0) # cache_set c x r)"

subsection \<open>\<^verbatim>\<open>Objective.__init__\<close>\<close>

record kwargs =
  kw_lf :: likelihood
  kw_guess :: "params option"
  kw_fix :: "params option"
  kw_bounds :: "bound dict option"
  kw_llr_tolerance :: pyfloat
  kw_nan_val :: pyfloat
  kw_get_lowlevel_result :: bool
  kw_get_history :: bool
  kw_use_hessian :: bool
  kw_return_errors :: bool
  kw_optimizer_error :: "pyfloat list option"
  kw_allow_failure :: bool

text \<open>The defaults of the signature.\<close>

definition default_kwargs :: "likelihood \<Rightarrow> kwargs" where
  "default_kwargs l =
     \<lparr>kw_lf = l, kw_guess = None, kw_fix = None, kw_bounds = None,
      kw_llr_tolerance = Fin (5 / 100), kw_nan_val = PInf,
      kw_get_lowlevel_result = False, kw_get_history = False,
      kw_use_hessian = False, kw_return_errors = False,
      kw_optimizer_error = None, kw_allow_failure = False\<rparr>"

fun add_default_bounds :: "string list \<Rightarrow> bound dict \<Rightarrow> bound dict" where
  "add_default_bounds [] b = b"
| "add_default_bounds (p # ps) b =
     add_default_bounds ps
       (if endswith p ''_rate_multiplier''
        then setdefault b p (Some LOWER_RATE_MULTIPLIER_BOUND, None) else b)"

text \<open>
  \<open>objective_init cls require_complete_guess kw\<close>: the constructor of the class with
  backend \<open>cls\<close>.  The class attribute \<^verbatim>\<open>arg_names\<close> is \<^verbatim>\<open>None\<close> in every class of the
  file, so the names are always computed from the likelihood's.
\<close>

definition objective_init :: "backend \<Rightarrow> bool \<Rightarrow> kwargs \<Rightarrow> error + (objective \<times> ostate)" where
  "objective_init cls require_complete_guess kw =
     (let guess0 = (case kw_guess kw of None \<Rightarrow> [] | Some g \<Rightarrow> g);
          fix0 = (case kw_fix kw of None \<Rightarrow> [] | Some f \<Rightarrow> f);
          guess1 = dict_merge guess0 fix0;
          names = filter (\<lambda>k. k \<notin> set (keys fix0)) (param_names (kw_lf kw))
      in if require_complete_guess \<and> \<not> list_all (\<lambda>k. k \<in> set (keys guess1)) names
         then Inl ValueError
         else
           let bounds0 = (case kw_bounds kw of None \<Rightarrow> [] | Some b \<Rightarrow> b)
           in Inr (\<lparr>lf = kw_lf kw, guess = guess1, fixed = fix0,
                    bounds = add_default_bounds names bounds0,
                    llr_tolerance = kw_llr_tolerance kw, nan_val = kw_nan_val kw,
                    get_lowlevel_result = kw_get_lowlevel_result kw,
                    return_history = kw_get_history kw,
                    use_hessian = kw_use_hessian kw,
                    return_errors = kw_return_errors kw,
                    optimizer_error = kw_optimizer_error kw,
                    allow_failure = kw_allow_failure kw,
                    arg_names = names,
                    absolute_ftol = kw_llr_tolerance kw,
                    backend = cls, interval = None\<rparr>,
                   \<lparr>cache = [], history = [], warnings = [], lf_calls = []\<rparr>))"

subsection \<open>The parameter codec\<close>

text \<open>\<^verbatim>\<open>_dict_to_array\<close>: \<^verbatim>\<open>x[k]\<close> raises KeyError for a missing name.\<close>

fun lookup_all :: "'v dict \<Rightarrow> string list \<Rightarrow> error + 'v list" where
  "lookup_all x [] = Inr []"
| "lookup_all x (k # ks) =
     (case getitem x k of
        Inl e \<Rightarrow> Inl e
      | Inr v \<Rightarrow> (case lookup_all x ks of Inl e \<Rightarrow> Inl e | Inr vs \<Rightarrow> Inr (v # vs)))"

definition dict_to_array :: "objective \<Rightarrow> params \<Rightarrow> error + pyfloat list" where
  "dict_to_array self x = lookup_all x (arg_names self)"

definition array_to_dict :: "objective \<Rightarrow> pyfloat list \<Rightarrow> error + params" where
  "array_to_dict self x =
     (if length x = length (arg_names self)
      then Inr (dict_of (zip (arg_names self) x))
      else Inl AssertionError)"

subsection \<open>Evaluation\<close>

definition nan_result :: "objective \<Rightarrow> objective_result" where
  "nan_result self =
     \<lparr>res_fun = nan_val self, res_grad = replicate (length (arg_names self)) NaN\<rparr>"

text \<open>The bound test of \<^verbatim>\<open>__call__\<close>:
  \<^verbatim>\<open>(b[0] is None or b[0] <= v) and (b[1] is None or v < b[1])\<close>.\<close>

definition in_bound :: "bound \<Rightarrow> pyfloat \<Rightarrow> bool" where
  "in_bound b v =
     ((case fst b of None \<Rightarrow> True | Some l \<Rightarrow> fle l v) \<and>
      (case snd b of None \<Rightarrow> True | Some r \<Rightarrow> flt v r))"

text \<open>The loop over \<^verbatim>\<open>params.items()\<close>: the warning of the first entry that is
  rejected, or \<open>None\<close> when every entry passes.\<close>

fun check_params :: "bound dict \<Rightarrow> params \<Rightarrow> warning option" where
  "check_params bs [] = None"
| "check_params bs ((k, v) # rest) =
     (if isnan v then Some (ParamIsNaN k)
      else case map_of bs k of
             None \<Rightarrow> check_params bs rest
           | Some b \<Rightarrow>
               if \<not> in_bound b v then Some (ParamOutOfBounds k v b)
               else check_params bs rest)"

text \<open>\<^verbatim>\<open>Objective._inner_fun_and_grad\<close>: one invocation of the likelihood.\<close>

definition base_inner_fun_and_grad ::
    "objective \<Rightarrow> ostate \<Rightarrow> params \<Rightarrow> (pyfloat \<times> pyfloat list) \<times> ostate" where
  "base_inner_fun_and_grad self st ps =
     (minus_ll (lf self) (length (lf_calls st)) ps (keys (fixed self)),
      st\<lparr>lf_calls := lf_calls st @ [ps]\<rparr>)"

text \<open>\<^verbatim>\<open>IntervalObjective.t_ppf\<close> and \<^verbatim>\<open>t_ppf_grad\<close>: the methods, unless the constructor
  received \<^verbatim>\<open>t_ppf\<close>; then both attributes are the constructor's arguments, and calling a
  \<^verbatim>\<open>t_ppf_grad\<close> that is \<^verbatim>\<open>None\<close> is a TypeError.\<close>

definition t_ppf :: "interval_ctx \<Rightarrow> pyfloat \<Rightarrow> pyfloat" where
  "t_ppf c v =
     (case t_ppf_arg c of None \<Rightarrow> wilks_crit c (critical_quantile c) | Some f \<Rightarrow> f v)"

definition t_ppf_grad :: "interval_ctx \<Rightarrow> pyfloat \<Rightarrow> error + pyfloat" where
  "t_ppf_grad c v =
     (case t_ppf_arg c of
        None \<Rightarrow> Inr (Fin 0)
      | Some f \<Rightarrow> (case t_ppf_grad_arg c of None \<Rightarrow> Inl TypeError | Some g \<Rightarrow> Inr (g v)))"

definition offset :: pyfloat where
  "offset = Fin 1"

text \<open>\<^verbatim>\<open>IntervalObjective._inner_fun_and_grad\<close>\<close>

definition interval_inner_fun_and_grad ::
    "objective \<Rightarrow> interval_ctx \<Rightarrow> ostate \<Rightarrow> params \<Rightarrow> error + ((pyfloat \<times> pyfloat list) \<times> ostate)" where
  "interval_inner_fun_and_grad self c st ps =
     (case getitem ps (target_parameter c) of
        Inl e \<Rightarrow> Inl e
      | Inr x \<Rightarrow>
     (case truediv (fsub x (bestfit_tp c)) (sigma_guess c) of
        Inl e \<Rightarrow> Inl e
      | Inr x_norm \<Rightarrow>
     (case base_inner_fun_and_grad self st ps of
        ((f0, grad0), st1) \<Rightarrow>
     (let diff = fsub (fsub f0 (m2ll_best c)) (t_ppf c x);
          f1 = fmul diff diff
      in case t_ppf_grad c x of
        Inl e \<Rightarrow> Inl e
      | Inr tg \<Rightarrow>
     (let grad1 = map (\<lambda>g. fmul (fmul (Fin 2) diff) (fsub g tg)) grad0;
          f2 = fadd f1 (fmul (fmul (fneg (Fin (of_int (direction c)))) (tilt c)) x_norm)
      in case truediv (fmul (fneg (Fin (of_int (direction c)))) (tilt c)) (sigma_guess c) of
        Inl e \<Rightarrow> Inl e
      | Inr extra_grad \<Rightarrow>
     (case list_index (arg_names self) (target_parameter c) of
        Inl e \<Rightarrow> Inl e
      | Inr i \<Rightarrow>
          if i < length grad1
          then Inr ((fadd f2 offset, grad1[i := fadd (grad1 ! i) extra_grad]), st1)
          else Inl IndexError))))))"

text \<open>The method \<^verbatim>\<open>_inner_fun_and_grad\<close> that an instance dispatches to.\<close>

definition inner_fun_and_grad ::
    "objective \<Rightarrow> ostate \<Rightarrow> params \<Rightarrow> error + ((pyfloat \<times> pyfloat list) \<times> ostate)" where
  "inner_fun_and_grad self st ps =
     (case interval self of
        None \<Rightarrow> Inr (base_inner_fun_and_grad self st ps)
      | Some c \<Rightarrow> interval_inner_fun_and_grad self c st ps)"

text \<open>What \<^verbatim>\<open>__call__\<close> does with the likelihood's answer: history, the NaN checks on the
  answer, the cache.\<close>

definition package_result ::
    "objective \<Rightarrow> pyfloat list \<Rightarrow> params \<Rightarrow> pyfloat \<Rightarrow> pyfloat list \<Rightarrow> ostate
       \<Rightarrow> objective_result \<times> ostate" where
  "package_result self x ps y g st1 =
     (let st2 = (if return_history self
                 then st1\<lparr>history := history st1 @ [\<lparr>h_params = ps, h_y = y, h_grad = g\<rparr>]\<rparr>
                 else st1);
          rw = (if isnan y then (nan_result self, warn (ObjectiveIsNaN x) st2)
                else if list_ex isnan g then (nan_result self, warn (GradientIsNaN x g) st2)
                else (\<lparr>res_fun = y, res_grad = g\<rparr>, st2))
      in (fst rw,
          if memoize self
          then (snd rw)\<lparr>cache := cache_set (cache (snd rw)) x (fst rw)\<rparr>
          else snd rw))"

text \<open>\<^verbatim>\<open>Objective.__call__\<close>\<close>

definition objective_call ::
    "objective \<Rightarrow> ostate \<Rightarrow> pyfloat list \<Rightarrow> error + (objective_result \<times> ostate)" where
  "objective_call self st x =
     (case (if memoize self then cache_get (cache st) x else None) of
        Some r \<Rightarrow> Inr (r, st)
      | None \<Rightarrow>
     (case array_to_dict self x of
        Inl e \<Rightarrow> Inl e
      | Inr d \<Rightarrow>
     (let ps = dict_merge d (fixed self)
      in case check_params (bounds self) ps of
        Some w \<Rightarrow> Inr (nan_result self, warn w st)
      | None \<Rightarrow>
     (case inner_fun_and_grad self st ps of
        Inl e \<Rightarrow> Inl e
      | Inr ((y, g), st1) \<Rightarrow> Inr (package_result self x ps y g st1)))))"

text \<open>A run of calls, as an optimizer makes them; it stops at the first exception.\<close>

fun run_calls ::
    "objective \<Rightarrow> ostate \<Rightarrow> pyfloat list list \<Rightarrow> error + (objective_result list \<times> ostate)" where
  "run_calls self st [] = Inr ([], st)"
| "run_calls self st (x # xs) =
     (case objective_call self st x of
        Inl e \<Rightarrow> Inl e
      | Inr (r, st1) \<Rightarrow>
          (case run_calls self st1 xs of
             Inl e \<Rightarrow> Inl e
           | Inr (rs, st2) \<Rightarrow> Inr (r # rs, st2)))"

subsection \<open>\<^verbatim>\<open>IntervalObjective.__init__\<close>\<close>

record interval_args =
  ia_target_parameter :: string
  ia_bestfit :: params
  ia_direction :: int
  ia_critical_quantile :: pyfloat
  ia_tol_multiplier :: pyfloat
  ia_sigma_guess :: "pyfloat option"
  ia_t_ppf :: "(pyfloat \<Rightarrow> pyfloat) option"
  ia_t_ppf_grad :: "(pyfloat \<Rightarrow> pyfloat) option"

text \<open>\<^verbatim>\<open>xs[xs_names.index(k)]\<close>\<close>

definition at_index_of :: "'a list \<Rightarrow> string list \<Rightarrow> string \<Rightarrow> error + 'a" where
  "at_index_of xs names k =
     (case list_index names k of
        Inl e \<Rightarrow> Inl e
      | Inr i \<Rightarrow> if i < length xs then Inr (xs ! i) else Inl IndexError)"

text \<open>The branch \<^verbatim>\<open>if self.target_parameter not in self.guess\<close>: the guess of the
  crossing point from Wilks' theorem.  \<open>wilks\<close> is \<^verbatim>\<open>fd.wilks_crit\<close>.\<close>

definition derive_tp_guess ::
    "(pyfloat \<Rightarrow> pyfloat) \<Rightarrow> string \<Rightarrow> pyfloat \<Rightarrow> pyfloat \<Rightarrow> pyfloat \<Rightarrow> pyfloat \<Rightarrow> int
       \<Rightarrow> error + pyfloat" where
  "derive_tp_guess wilks target cq sigma slope tp dir =
     (let dy = wilks cq;
          dx_1 = fmul (pow_half (fmul (Fin 2) dy)) (fabs sigma)
      in case (if feq slope (Fin 0) then Inr PInf
               else case truediv dy slope of Inl e \<Rightarrow> Inl e | Inr q \<Rightarrow> Inr (fabs q)) of
           Inl e \<Rightarrow> Inl e
         | Inr dx_2 \<Rightarrow>
             (let dx = py_min dx_1 dx_2;
                  tp_guess = py_max LOWER_RATE_MULTIPLIER_BOUND
                               (fadd tp (fmul (Fin (of_int dir)) dx))
              in Inr (if endswith target ''rate_multiplier''
                      then py_max tp_guess LOWER_RATE_MULTIPLIER_BOUND
                      else tp_guess)))"

text \<open>The two assertions on the guess; the upper bound is closed here.\<close>

definition guess_in_bounds :: "bound dict \<Rightarrow> string \<Rightarrow> pyfloat \<Rightarrow> bool" where
  "guess_in_bounds bs target tp_guess =
     (case (case map_of bs target of None \<Rightarrow> (None, None) | Some b \<Rightarrow> b) of
        (lb, rb) \<Rightarrow>
          (case lb of None \<Rightarrow> True | Some l \<Rightarrow> fle l tp_guess) \<and>
          (case rb of None \<Rightarrow> True | Some r \<Rightarrow> fle tp_guess r))"

definition interval_init ::
    "backend \<Rightarrow> (pyfloat \<Rightarrow> pyfloat) \<Rightarrow> interval_args \<Rightarrow> kwargs \<Rightarrow> error + (objective \<times> ostate)" where
  "interval_init cls wilks ia kw =
     (case objective_init cls False kw of
        Inl e \<Rightarrow> Inl e
      | Inr (self, st) \<Rightarrow>
     (let target = ia_target_parameter ia; best = ia_bestfit ia
      in case (case ia_sigma_guess ia of
                 Some s \<Rightarrow> Inr s
               | None \<Rightarrow> at_index_of (hessian_std (lf self) best) (param_names (lf self)) target) of
        Inl e \<Rightarrow> Inl e
      | Inr sigma \<Rightarrow>
     (let tilt0 = fmul (fmul (Fin 4) (llr_tolerance self)) (ia_critical_quantile ia)
      in case getitem best target of
        Inl e \<Rightarrow> Inl e
      | Inr tp \<Rightarrow>
     (case base_inner_fun_and_grad self st best of
        ((m2ll, grad_at_bestfit), st1) \<Rightarrow>
     (case at_index_of grad_at_bestfit (param_names (lf self)) target of
        Inl e \<Rightarrow> Inl e
      | Inr slope \<Rightarrow>
     (case (case map_of (guess self) target of
              None \<Rightarrow> derive_tp_guess wilks target (ia_critical_quantile ia) sigma slope tp
                        (ia_direction ia)
            | Some g \<Rightarrow> Inr g) of
        Inl e \<Rightarrow> Inl e
      | Inr tp_guess \<Rightarrow>
          if \<not> guess_in_bounds (bounds self) target tp_guess then Inl AssertionError
          else Inr
            (self\<lparr>guess := dict_merge (dict_merge best [(target, tp_guess)]) (guess self),
                  absolute_ftol :=
                    fmul (ia_tol_multiplier ia) (fmul (llr_tolerance self) (llr_tolerance self)),
                  interval := Some
                    \<lparr>target_parameter = target, bestfit = best,
                     direction = ia_direction ia,
                     critical_quantile = ia_critical_quantile ia,
                     tol_multiplier = ia_tol_multiplier ia,
                     sigma_guess = sigma,
                     t_ppf_arg = ia_t_ppf ia,
                     t_ppf_grad_arg = ia_t_ppf_grad ia,
                     wilks_crit = wilks, tilt = tilt0, bestfit_tp = tp,
                     m2ll_best = m2ll, bestfit_tp_slope = slope\<rparr>\<rparr>,
             st1)))))))"

text \<open>\<^verbatim>\<open>IntervalObjective.absolute_to_relative_tol\<close>\<close>

definition absolute_to_relative_tol :: "pyfloat \<Rightarrow> error + pyfloat" where
  "absolute_to_relative_tol tol = truediv tol offset"

subsection \<open>Minimization\<close>

text \<open>What each optimizer returns, with the fields that \<^verbatim>\<open>parse_result\<close> reads.\<close>

record scipy_result =
  success :: bool
  status :: int
  message :: string
  sx :: "pyfloat list"
  sfun :: pyfloat

record tfp_result =
  failed :: bool
  position :: "pyfloat list"
  objective_value :: pyfloat

record minuit_fit =
  migrad_ok :: bool
  has_reached_call_limit :: bool
  is_above_max_edm :: bool
  fitarg :: params
  fval :: pyfloat

datatype raw_result = ScipyRaw scipy_result | TfpRaw tfp_result | MinuitRaw minuit_fit

text \<open>
  An optimizer is a black box: one run of it is the list of the vectors at which it
  evaluated the objective, in order, and the result it returned.
\<close>

record optimizer_run =
  queries :: "pyfloat list list"
  outcome :: raw_result

text \<open>\<^verbatim>\<open>Objective.fail\<close>\<close>

definition fail :: "objective \<Rightarrow> ostate \<Rightarrow> fail_message \<Rightarrow> error + ostate" where
  "fail self st m =
     (if allow_failure self then Inr (warn (FailureDemoted m) st)
      else Inl (OptimizerFailure m))"

text \<open>\<^verbatim>\<open>parse_result\<close> of the three classes.\<close>

definition scipy_parse_result ::
    "objective \<Rightarrow> ostate \<Rightarrow> scipy_result \<Rightarrow> error + ((params \<times> pyfloat) \<times> ostate)" where
  "scipy_parse_result self st r =
     (case (if \<not> success r then fail self st (ScipyFailed (status r) (message r))
            else Inr st) of
        Inl e \<Rightarrow> Inl e
      | Inr st1 \<Rightarrow> Inr ((dict_of (zip (arg_names self) (sx r)), sfun r), st1))"

definition tfp_parse_result ::
    "objective \<Rightarrow> ostate \<Rightarrow> tfp_result \<Rightarrow> error + ((params \<times> pyfloat) \<times> ostate)" where
  "tfp_parse_result self st r =
     (case (if failed r then fail self st TfpFailed else Inr st) of
        Inl e \<Rightarrow> Inl e
      | Inr st1 \<Rightarrow> Inr ((dict_of (zip (arg_names self) (position r)), objective_value r), st1))"

definition minuit_parse_result ::
    "objective \<Rightarrow> ostate \<Rightarrow> minuit_fit \<Rightarrow> error + ((params \<times> pyfloat) \<times> ostate)" where
  "minuit_parse_result self st r =
     (case (if \<not> migrad_ok r
            then fail self st (MigradFailed (has_reached_call_limit r) (is_above_max_edm r))
            else Inr st) of
        Inl e \<Rightarrow> Inl e
      | Inr st1 \<Rightarrow>
          (case lookup_all (fitarg r) (arg_names self) of
             Inl e \<Rightarrow> Inl e
           | Inr vs \<Rightarrow> Inr ((dict_of (zip (arg_names self) vs), fval r), st1)))"

text \<open>The method an instance dispatches to; an optimizer only returns its own kind of
  result, and reading a missing attribute of another kind would be an AttributeError.\<close>

definition parse_result ::
    "objective \<Rightarrow> ostate \<Rightarrow> raw_result \<Rightarrow> error + ((params \<times> pyfloat) \<times> ostate)" where
  "parse_result self st raw =
     (case (backend self, raw) of
        (Scipy, ScipyRaw r) \<Rightarrow> scipy_parse_result self st r
      | (TFP, TfpRaw r) \<Rightarrow> tfp_parse_result self st r
      | (Minuit, MinuitRaw r) \<Rightarrow> minuit_parse_result self st r
      | _ \<Rightarrow> Inl AttributeError)"

text \<open>The default of Minuit's \<^verbatim>\<open>error\<close> option in \<^verbatim>\<open>MinuitObjective._minimize\<close>:
  \<^verbatim>\<open>np.maximum(x_guess * 0.1, 1e-3 * np.ones_like(x_guess))\<close>.\<close>

definition default_error :: "pyfloat list \<Rightarrow> pyfloat list" where
  "default_error x_guess =
     map (\<lambda>g. np_maximum (fmul g (Fin (1 / 10))) (fmul (Fin (1 / 1000)) (Fin 1))) x_guess"

text \<open>The value of \<^verbatim>\<open>kwargs['error']\<close> after the \<^verbatim>\<open>setdefault\<close>.\<close>

definition minuit_error :: "objective \<Rightarrow> error + pyfloat list" where
  "minuit_error self =
     (case dict_to_array self (guess self) of
        Inl e \<Rightarrow> Inl e
      | Inr x_guess \<Rightarrow>
          Inr (case optimizer_error self of None \<Rightarrow> default_error x_guess | Some e \<Rightarrow> e))"

text \<open>\<^verbatim>\<open>Objective.relative_ftol_guess\<close>: it invokes the likelihood at the guess, outside
  \<^verbatim>\<open>__call__\<close>.\<close>

definition relative_ftol_guess :: "objective \<Rightarrow> ostate \<Rightarrow> error + (pyfloat \<times> ostate)" where
  "relative_ftol_guess self st =
     (case inner_fun_and_grad self st (guess self) of
        Inl e \<Rightarrow> Inl e
      | Inr ((y, g), st1) \<Rightarrow>
          (case truediv (absolute_ftol self) y of
             Inl e \<Rightarrow> Inl e
           | Inr q \<Rightarrow> Inr (fabs q, st1)))"

text \<open>
  \<^verbatim>\<open>_minimize\<close> of the three classes, as far as the objective sees it: the exceptions
  raised before the optimizer starts, the invocation of the likelihood by
  \<^verbatim>\<open>relative_ftol_guess\<close> (TensorFlow only), the start vector, then the optimizer's
  calls.  The options handed to the optimizer do not reach the objective and are left
  out, but for Minuit's \<^verbatim>\<open>error\<close> above.
\<close>

definition minimize_backend ::
    "objective \<Rightarrow> ostate \<Rightarrow> optimizer_run \<Rightarrow> error + (raw_result \<times> ostate)" where
  "minimize_backend self st run =
     (if backend self \<noteq> Minuit \<and> return_errors self then Inl NotImplementedError
      else
     (case (if backend self = TFP
            then (case relative_ftol_guess self st of
                    Inl e \<Rightarrow> Inl e | Inr (tol, st1) \<Rightarrow> Inr st1)
            else Inr st) of
        Inl e \<Rightarrow> Inl e
      | Inr st1 \<Rightarrow>
     (case dict_to_array self (guess self) of
        Inl e \<Rightarrow> Inl e
      | Inr x_guess \<Rightarrow>
     (case run_calls self st1 (queries run) of
        Inl e \<Rightarrow> Inl e
      | Inr (rs, st2) \<Rightarrow> Inr (outcome run, st2)))))"

text \<open>The loop of \<^verbatim>\<open>minimize\<close> that compares the result against the guess.\<close>

fun compare_with_guess :: "objective \<Rightarrow> ostate \<Rightarrow> params \<Rightarrow> error + ostate" where
  "compare_with_guess self st [] = Inr st"
| "compare_with_guess self st ((k, v) # rest) =
     (case getitem (guess self) k of
        Inl e \<Rightarrow> Inl e
      | Inr g \<Rightarrow>
          compare_with_guess self (if feq g v then warn (EqualToGuess k v) st else st) rest)"

datatype minimize_result =
    LowLevel raw_result
  | History "hist_entry list"
  | Estimate params

text \<open>\<^verbatim>\<open>Objective.minimize\<close>\<close>

definition minimize ::
    "objective \<Rightarrow> ostate \<Rightarrow> optimizer_run \<Rightarrow> error + (minimize_result \<times> ostate)" where
  "minimize self st run =
     (case minimize_backend self st run of
        Inl e \<Rightarrow> Inl e
      | Inr (raw, st1) \<Rightarrow>
          if get_lowlevel_result self then Inr (LowLevel raw, st1)
          else if return_history self then Inr (History (history st1), st1)
          else
            (case parse_result self st1 raw of
               Inl e \<Rightarrow> Inl e
             | Inr ((result, llval), st2) \<Rightarrow>
                 (case compare_with_guess self st2 result of
                    Inl e \<Rightarrow> Inl e
                  | Inr st3 \<Rightarrow> Inr (Estimate (dict_merge result (fixed self)), st3))))"

section \<open>Notions used by the properties\<close>

text \<open>The parameters that \<^verbatim>\<open>__call__\<close> builds from a vector of the right length:
  \<^verbatim>\<open>{**self._array_to_dict(x), **self.fix}\<close>.\<close>

definition params_of :: "objective \<Rightarrow> pyfloat list \<Rightarrow> params" where
  "params_of self x = dict_merge (dict_of (zip (arg_names self) x)) (fixed self)"

text \<open>A vector passes the guard of \<^verbatim>\<open>__call__\<close>: it decodes, and no parameter is rejected.\<close>

definition accepts :: "objective \<Rightarrow> pyfloat list \<Rightarrow> bool" where
  "accepts self x =
     (length x = length (arg_names self) \<and> check_params (bounds self) (params_of self x) = None)"

text \<open>Every key of the cache passes the guard.\<close>

definition cache_inv :: "objective \<Rightarrow> ostate \<Rightarrow> bool" where
  "cache_inv self st = list_all (\<lambda>(k, r). accepts self k) (cache st)"

text \<open>\<open>self\<close> and \<open>st\<close> are what a constructor of the file returns for the keyword
  arguments \<open>kw\<close>.\<close>

definition fresh_instance :: "kwargs \<Rightarrow> objective \<Rightarrow> ostate \<Rightarrow> bool" where
  "fresh_instance kw self st =
     ((\<exists>cls rcg. objective_init cls rcg kw = Inr (self, st)) \<or>
      (\<exists>cls wilks ia. interval_init cls wilks ia kw = Inr (self, st)))"

definition kw_fixed :: "kwargs \<Rightarrow> params" where
  "kw_fixed kw = (case kw_fix kw of None \<Rightarrow> [] | Some f \<Rightarrow> f)"

text \<open>The vectors that a lookup in the cache finds.\<close>

definition cached_keys :: "ostate \<Rightarrow> pyfloat list set" where
  "cached_keys st = {k. cache_get (cache st) k \<noteq> None}"

section \<open>Example instances\<close>

text \<open>A likelihood with three parameters, one of them fixed by the keyword arguments.\<close>

definition ex_lf :: likelihood where
  "ex_lf = \<lparr>param_names = [''a'', ''s_rate_multiplier'', ''b''],
            minus_ll = (\<lambda>n ps om. (Fin (10 + real n), [Fin 1, Fin 2])),
            hessian_std = (\<lambda>ps. [Fin 1, Fin 1, Fin 1])\<rparr>"

definition ex_kw :: kwargs where
  "ex_kw = (default_kwargs ex_lf)
     \<lparr>kw_guess := Some [(''a'', Fin 4), (''s_rate_multiplier'', Fin 1)],
      kw_fix := Some [(''b'', Fin 3)]\<rparr>"

definition ex_self :: objective where
  "ex_self = fst (projr (objective_init Scipy True ex_kw))"

definition ex_st0 :: ostate where
  "ex_st0 = snd (projr (objective_init Scipy True ex_kw))"

definition ex_st1 :: ostate where
  "ex_st1 = snd (projr (run_calls ex_self ex_st0 [[Fin 1, Fin 2]]))"

text \<open>The same keyword arguments with the history switched on, for a Minuit objective.\<close>

definition ex_kw_h :: kwargs where
  "ex_kw_h = ex_kw\<lparr>kw_get_history := True\<rparr>"

definition ex_h :: objective where
  "ex_h = fst (projr (objective_init Minuit True ex_kw_h))"

definition ex_h1 :: ostate where
  "ex_h1 = snd (projr (run_calls ex_h ex_st0 [[Fin 1, Fin 2]]))"

text \<open>The same keyword arguments with \<^verbatim>\<open>allow_failure=True\<close>, a scipy result that reports
  failure, and a run of the optimizer that evaluates one vector and succeeds.\<close>

definition ex_kw_af :: kwargs where
  "ex_kw_af = ex_kw\<lparr>kw_allow_failure := True\<rparr>"

definition ex_af :: objective where
  "ex_af = fst (projr (objective_init Scipy True ex_kw_af))"

definition ex_scipy_failed :: scipy_result where
  "ex_scipy_failed =
     \<lparr>success = False, status = 1, message = ''limit'', sx = [Fin 4, Fin 2], sfun = Fin 12\<rparr>"

definition ex_run :: optimizer_run where
  "ex_run =
     \<lparr>queries = [[Fin 1, Fin 2]],
      outcome = ScipyRaw \<lparr>success = True, status = 0, message = ''ok'',
                          sx = [Fin 4, Fin 2], sfun = Fin 10\<rparr>\<rparr>"

text \<open>A Minuit objective whose guess for \<open>a\<close> is negative.\<close>

definition ex_kw_neg :: kwargs where
  "ex_kw_neg = ex_kw\<lparr>kw_guess := Some [(''a'', Fin (- 5)), (''s_rate_multiplier'', Fin 1)]\<rparr>"

definition ex_neg :: objective where
  "ex_neg = fst (projr (objective_init Minuit True ex_kw_neg))"

text \<open>
  The interval objective of the scenario: target \<open>t\<close>, bestfit \<open>t = 5\<close>, \<open>s = 1\<close>,
  direction \<open>+1\<close>, \<open>sigma_guess = 2\<close>, a likelihood whose slope in \<open>t\<close> is zero, and
  \<open>2.7055\<close> for the critical value.
\<close>

definition ex_lf_iv :: likelihood where
  "ex_lf_iv = \<lparr>param_names = [''t'', ''s''],
               minus_ll = (\<lambda>n ps om. (Fin (10 + real n), [Fin 0, Fin 1])),
               hessian_std = (\<lambda>ps. [Fin 2, Fin 1])\<rparr>"

definition ex_wilks :: "pyfloat \<Rightarrow> pyfloat" where
  "ex_wilks q = Fin (27055 / 10000)"

definition ex_ia :: interval_args where
  "ex_ia = \<lparr>ia_target_parameter = ''t'',
            ia_bestfit = [(''t'', Fin 5), (''s'', Fin 1)],
            ia_direction = 1,
            ia_critical_quantile = Fin (9 / 10),
            ia_tol_multiplier = Fin 1,
            ia_sigma_guess = Some (Fin 2),
            ia_t_ppf = None, ia_t_ppf_grad = None\<rparr>"

definition ex_iv :: objective where
  "ex_iv = fst (projr (interval_init Scipy ex_wilks ex_ia (default_kwargs ex_lf_iv)))"

definition ex_iv_st0 :: ostate where
  "ex_iv_st0 = snd (projr (interval_init Scipy ex_wilks ex_ia (default_kwargs ex_lf_iv)))"

definition ex_iv_ctx :: interval_ctx where
  "ex_iv_ctx = the (interval ex_iv)"

text \<open>The states of the first objective after a rejected call, then an evaluated call, then
  a call at a NaN.\<close>

definition ex_m0 :: ostate where
  "ex_m0 = snd (projr (run_calls ex_self ex_st0 [[Fin 1, Fin (- 1)]]))"

definition ex_m1 :: ostate where
  "ex_m1 = snd (projr (objective_call ex_self ex_m0 [Fin 1, Fin 2]))"

definition ex_m2 :: ostate where
  "ex_m2 = snd (projr (run_calls ex_self ex_m1 [[NaN, Fin 2]]))"

section \<open>Dictionaries, cache and guard\<close>

lemma map_of_fold_update:
  "map_of (fold (\<lambda>(k, v). AList.update k v) b a) = map_of a ++ map_of (rev b)"
proof (induction b arbitrary: a)
  case Nil
  then show ?case by simp
next
  case (Cons p b)
  obtain k v where p: "p = (k, v)" by (cases p)
  show ?case
    by (simp add: p Cons.IH update_conv' map_add_def fun_eq_iff split: option.splits)
qed

lemma map_of_rev_distinct:
  "distinct (map fst xs) \<Longrightarrow> map_of (rev xs) k = map_of xs k"
proof (induction xs)
  case Nil
  then show ?case by simp
next
  case (Cons p xs)
  obtain a b where p: "p = (a, b)" by (cases p)
  from Cons.prems have notin: "a \<notin> fst ` set xs" and d: "distinct (map fst xs)"
    by (simp_all add: p)
  from notin have "map_of xs a = None"
    by (simp add: map_of_eq_None_iff)
  with Cons.IH [OF d] show ?case
    by (simp add: p map_add_def split: option.splits)
qed

lemma map_of_dict_merge:
  "distinct (keys b) \<Longrightarrow> map_of (dict_merge a b) = map_of a ++ map_of b"
  by (rule ext) (simp add: dict_merge_def map_of_fold_update keys_def map_add_def map_of_rev_distinct)

lemma map_of_dict_of: "map_of (dict_of ps) = map_of (rev ps)"
  by (simp add: dict_of_def map_of_fold_update)

lemma keys_fold_update:
  "set (keys (fold (\<lambda>(k, v). AList.update k v) b a)) = set (keys a) \<union> set (keys b)"
proof (induction b arbitrary: a)
  case Nil
  then show ?case by (simp add: keys_def)
next
  case (Cons p b)
  obtain k v where p: "p = (k, v)" by (cases p)
  have "set (keys (AList.update k v a)) = insert k (set (keys a))"
    using dom_update [of k v a] by (simp add: keys_def)
  then show ?case
    by (simp add: p Cons.IH) (auto simp: keys_def)
qed

lemma lookup_all_Inr:
  "set ks \<subseteq> set (keys x) \<Longrightarrow> lookup_all x ks = Inr (map (\<lambda>k. the (map_of x k)) ks)"
proof (induction ks)
  case Nil
  then show ?case by simp
next
  case (Cons k ks)
  then have "k \<in> fst ` set x" by (simp add: keys_def)
  then obtain v where "map_of x k = Some v"
    by (metis domD dom_map_of_conv_image_fst)
  with Cons show ?case by (simp add: getitem_def)
qed

lemma lookup_all_keys:
  "lookup_all x ks = Inr vs \<Longrightarrow> set ks \<subseteq> set (keys x) \<and> length vs = length ks"
proof (induction ks arbitrary: vs)
  case Nil
  then show ?case by simp
next
  case (Cons k ks)
  then show ?case
    by (force simp: getitem_def keys_def split: option.splits sum.splits dest: map_of_SomeD)
qed

lemma map_of_zip_same:
  "map_of (rev (zip ks (map f ks))) k = (if k \<in> set ks then Some (f k) else None)"
proof -
  have "rev (zip ks (map f ks)) = zip (rev ks) (map f (rev ks))"
    by (simp add: zip_rev [symmetric] rev_map)
  then show ?thesis by (simp add: map_of_zip_map)
qed

lemma feq_eq: "feq a b \<Longrightarrow> a = b \<and> \<not> isnan b"
  by (simp add: feq_def)

lemma feq_refl: "\<not> isnan a \<Longrightarrow> feq a a"
  by (simp add: feq_def)

lemma key_eq_eq: "key_eq k x \<Longrightarrow> k = x"
  unfolding key_eq_def by (induction k x rule: list_all2_induct) (auto dest: feq_eq)

lemma key_eq_refl: "\<not> list_ex isnan x \<Longrightarrow> key_eq x x"
  unfolding key_eq_def by (induction x) (auto simp: feq_refl)

lemma cache_get_mem: "cache_get c x = Some r \<Longrightarrow> (x, r) \<in> set c"
  by (induction c) (auto split: if_splits dest: key_eq_eq)

lemma cache_get_set_miss:
  "cache_get c y = None \<Longrightarrow> cache_set c y r = c @ [(y, r)]"
  by (induction c) (auto split: if_splits)

lemma cache_get_append:
  "cache_get (c @ d) x = (case cache_get c x of Some r \<Rightarrow> Some r | None \<Rightarrow> cache_get d x)"
  by (induction c) auto

lemma check_params_None:
  "check_params bs ps = None \<longleftrightarrow>
     (\<forall>(k, v) \<in> set ps. \<not> isnan v \<and> (\<forall>b. map_of bs k = Some b \<longrightarrow> in_bound b v))"
proof (induction ps)
  case Nil
  then show ?case by simp
next
  case (Cons p ps)
  obtain k v where p: "p = (k, v)" by (cases p)
  show ?case
    by (cases "map_of bs k") (auto simp: p Cons.IH)
qed

lemma inner_fun_and_grad_state:
  "inner_fun_and_grad self st ps = Inr ((y, g), st') \<Longrightarrow> st' = st\<lparr>lf_calls := lf_calls st @ [ps]\<rparr>"
  by (auto simp: inner_fun_and_grad_def interval_inner_fun_and_grad_def
        base_inner_fun_and_grad_def Let_def
      split: option.splits sum.splits if_splits prod.splits)

lemma package_result_cache:
  "cache (snd (package_result self x ps y g st1)) =
     (if memoize self then cache_set (cache st1) x (fst (package_result self x ps y g st1))
      else cache st1)"
  by (simp add: package_result_def Let_def warn_def)

lemma package_result_lf_calls:
  "lf_calls (snd (package_result self x ps y g st1)) = lf_calls st1"
  by (simp add: package_result_def Let_def warn_def)

lemma package_result_history:
  "history (snd (package_result self x ps y g st1)) =
     (if return_history self
      then history st1 @ [\<lparr>h_params = ps, h_y = y, h_grad = g\<rparr>] else history st1)"
  by (simp add: package_result_def Let_def warn_def)

lemma objective_call_cases [consumes 1, case_names hit rejected evaluated]:
  assumes "objective_call self st x = Inr (r, st1)"
  obtains
    "memoize self" "cache_get (cache st) x = Some r" "st1 = st"
  | w where "memoize self \<longrightarrow> cache_get (cache st) x = None"
      "length x = length (arg_names self)"
      "check_params (bounds self) (params_of self x) = Some w"
      "r = nan_result self" "st1 = warn w st"
  | y g where "memoize self \<longrightarrow> cache_get (cache st) x = None"
      "accepts self x"
      "inner_fun_and_grad self st (params_of self x) =
         Inr ((y, g), st\<lparr>lf_calls := lf_calls st @ [params_of self x]\<rparr>)"
      "(r, st1) = package_result self x (params_of self x) y g
                     (st\<lparr>lf_calls := lf_calls st @ [params_of self x]\<rparr>)"
proof (cases "memoize self \<and> cache_get (cache st) x \<noteq> None")
  case True
  with assms show ?thesis
    by (intro that(1)) (auto simp: objective_call_def)
next
  case miss: False
  then have m: "(if memoize self then cache_get (cache st) x else None) = None"
    by auto
  from assms m have len: "length x = length (arg_names self)"
    by (auto simp: objective_call_def array_to_dict_def split: if_splits)
  then have d: "array_to_dict self x = Inr (dict_of (zip (arg_names self) x))"
    by (simp add: array_to_dict_def)
  show ?thesis
  proof (cases "check_params (bounds self) (params_of self x)")
    case (Some w)
    with assms m d show ?thesis
      by (intro that(2) [of w]) (use miss len in \<open>auto simp: objective_call_def params_of_def\<close>)
  next
    case None
    with assms m d obtain y g st' where
      i: "inner_fun_and_grad self st (params_of self x) = Inr ((y, g), st')" and
      p: "(r, st1) = package_result self x (params_of self x) y g st'"
      by (auto simp: objective_call_def params_of_def Let_def split: sum.splits)
    from inner_fun_and_grad_state [OF i]
    have st': "st' = st\<lparr>lf_calls := lf_calls st @ [params_of self x]\<rparr>" .
    show ?thesis
      by (rule that(3) [of y g]) (use miss len None i p st' in \<open>auto simp: accepts_def\<close>)
  qed
qed

lemma objective_init_fields:
  assumes "objective_init cls rcg kw = Inr (self, st)"
  shows "cache st = []" "history st = []" "warnings st = []" "lf_calls st = []"
    "fixed self = kw_fixed kw"
    "arg_names self = filter (\<lambda>k. k \<notin> set (keys (kw_fixed kw))) (param_names (kw_lf kw))"
    "nan_val self = kw_nan_val kw" "lf self = kw_lf kw" "backend self = cls"
    "return_history self = kw_get_history kw" "interval self = None"
    "allow_failure self = kw_allow_failure kw"
    "guess self = dict_merge (case kw_guess kw of None \<Rightarrow> [] | Some g \<Rightarrow> g) (kw_fixed kw)"
    "llr_tolerance self = kw_llr_tolerance kw"
  using assms
  by (auto simp: objective_init_def Let_def kw_fixed_def split: if_splits)

lemma interval_init_base:
  assumes "interval_init cls wilks ia kw = Inr (self, st)"
  obtains self0 st0 g af c where
    "objective_init cls False kw = Inr (self0, st0)"
    "self = self0\<lparr>guess := g, absolute_ftol := af, interval := Some c\<rparr>"
    "st = st0\<lparr>lf_calls := lf_calls st0 @ [ia_bestfit ia]\<rparr>"
proof -
  from assms obtain self0 st0 where
    i: "objective_init cls False kw = Inr (self0, st0)"
    by (auto simp: interval_init_def split: sum.splits)
  from assms i have
    "\<exists>g af c. self = self0\<lparr>guess := g, absolute_ftol := af, interval := Some c\<rparr> \<and>
       st = st0\<lparr>lf_calls := lf_calls st0 @ [ia_bestfit ia]\<rparr>"
    unfolding interval_init_def Let_def base_inner_fun_and_grad_def
    by (simp split: sum.splits prod.splits if_splits) blast
  with i that show thesis by blast
qed

lemma fresh_instance_fields:
  assumes "fresh_instance kw self st"
  shows "cache st = []" "history st = []" "warnings st = []"
    "fixed self = kw_fixed kw"
    "arg_names self = filter (\<lambda>k. k \<notin> set (keys (kw_fixed kw))) (param_names (kw_lf kw))"
    "nan_val self = kw_nan_val kw" "lf self = kw_lf kw"
    "return_history self = kw_get_history kw"
    "allow_failure self = kw_allow_failure kw"
proof -
  from assms consider
    cls rcg where "objective_init cls rcg kw = Inr (self, st)"
  | cls wilks ia where "interval_init cls wilks ia kw = Inr (self, st)"
    unfolding fresh_instance_def by blast
  then have "cache st = [] \<and> history st = [] \<and> warnings st = [] \<and>
    fixed self = kw_fixed kw \<and>
    arg_names self = filter (\<lambda>k. k \<notin> set (keys (kw_fixed kw))) (param_names (kw_lf kw)) \<and>
    nan_val self = kw_nan_val kw \<and> lf self = kw_lf kw \<and>
    return_history self = kw_get_history kw \<and> allow_failure self = kw_allow_failure kw"
  proof cases
    case 1
    then show ?thesis by (simp add: objective_init_fields)
  next
    case 2
    then show ?thesis
      by (rule interval_init_base) (simp add: objective_init_fields)
  qed
  then show "cache st = []" "history st = []" "warnings st = []"
    "fixed self = kw_fixed kw"
    "arg_names self = filter (\<lambda>k. k \<notin> set (keys (kw_fixed kw))) (param_names (kw_lf kw))"
    "nan_val self = kw_nan_val kw" "lf self = kw_lf kw"
    "return_history self = kw_get_history kw"
    "allow_failure self = kw_allow_failure kw"
    by simp_all
qed

lemma cache_inv_fresh: "fresh_instance kw self st \<Longrightarrow> cache_inv self st"
  by (simp add: cache_inv_def fresh_instance_fields)

lemma cache_inv_call:
  assumes "cache_inv self st" "objective_call self st x = Inr (r, st1)"
  shows "cache_inv self st1"
  using assms(2)
proof (cases rule: objective_call_cases)
  case hit
  with assms show ?thesis by simp
next
  case (rejected w)
  with assms show ?thesis by (simp add: cache_inv_def warn_def)
next
  case (evaluated y g)
  let ?st' = "st\<lparr>lf_calls := lf_calls st @ [params_of self x]\<rparr>"
  have c1: "cache st1 = cache (snd (package_result self x (params_of self x) y g ?st'))"
    using evaluated(4) by (metis snd_conv)
  show ?thesis
  proof (cases "memoize self")
    case True
    with evaluated have "cache_get (cache st) x = None" by simp
    then have "cache st1 = cache st @ [(x, r)]"
      using c1 True evaluated(4)
      by (simp add: package_result_cache cache_get_set_miss) (metis fst_conv)
    with assms(1) evaluated(2) show ?thesis by (simp add: cache_inv_def)
  next
    case False
    with c1 have "cache st1 = cache st" by (simp add: package_result_cache)
    with assms(1) show ?thesis by (simp add: cache_inv_def)
  qed
qed

lemma cache_inv_run:
  "cache_inv self st \<Longrightarrow> run_calls self st xs = Inr (rs, st1) \<Longrightarrow> cache_inv self st1"
proof (induction xs arbitrary: st rs)
  case Nil
  then show ?case by simp
next
  case (Cons x xs)
  from Cons.prems(2) obtain r sta rs' where
    c: "objective_call self st x = Inr (r, sta)" and
    r: "run_calls self sta xs = Inr (rs', st1)"
    by (auto split: sum.splits)
  from cache_inv_call [OF Cons.prems(1) c] r show ?case
    by (rule Cons.IH)
qed

lemma cache_inv_miss:
  assumes "cache_inv self st" "\<not> accepts self x"
  shows "cache_get (cache st) x = None"
proof (cases "cache_get (cache st) x")
  case None
  then show ?thesis .
next
  case (Some r)
  then have "(x, r) \<in> set (cache st)" by (rule cache_get_mem)
  with assms(1) have "accepts self x"
    by (auto simp: cache_inv_def list_all_iff)
  with assms(2) show ?thesis by simp
qed

lemma rejected_call:
  assumes "cache_inv self st" "length x = length (arg_names self)"
    "check_params (bounds self) (params_of self x) = Some w"
  shows "objective_call self st x = Inr (nan_result self, warn w st)"
proof -
  from assms(3) have "\<not> accepts self x" by (simp add: accepts_def)
  with assms(1) have "cache_get (cache st) x = None" by (rule cache_inv_miss)
  with assms(2,3) show ?thesis
    by (simp add: objective_call_def array_to_dict_def params_of_def)
qed

subsection \<open>The example instance\<close>

lemma ex_init: "objective_init Scipy True ex_kw = Inr (ex_self, ex_st0)"
  by (simp add: ex_self_def ex_st0_def objective_init_def ex_kw_def default_kwargs_def
      ex_lf_def dict_merge_def keys_def Let_def)

lemma ex_fresh: "fresh_instance ex_kw ex_self ex_st0"
  unfolding fresh_instance_def using ex_init by blast

lemma ex_fields:
  "arg_names ex_self = [''a'', ''s_rate_multiplier'']"
  "fixed ex_self = [(''b'', Fin 3)]"
  "bounds ex_self = [(''s_rate_multiplier'', (Some LOWER_RATE_MULTIPLIER_BOUND, None))]"
  "nan_val ex_self = PInf"
  "guess ex_self = [(''a'', Fin 4), (''s_rate_multiplier'', Fin 1), (''b'', Fin 3)]"
  "memoize ex_self"
  "interval ex_self = None"
  "return_history ex_self = False"
  "lf ex_self = ex_lf"
  by (simp_all add: ex_self_def ex_st0_def objective_init_def ex_kw_def default_kwargs_def
      ex_lf_def dict_merge_def keys_def Let_def endswith_def setdefault_def memoize_def)

lemma ex_st0_eq: "ex_st0 = \<lparr>cache = [], history = [], warnings = [], lf_calls = []\<rparr>"
  by (simp add: ex_st0_def objective_init_def ex_kw_def default_kwargs_def
      ex_lf_def dict_merge_def keys_def Let_def)

lemmas eval_simps =
  objective_call_def array_to_dict_def dict_of_def dict_merge_def params_of_def
  in_bound_def LOWER_RATE_MULTIPLIER_BOUND_def inner_fun_and_grad_def
  base_inner_fun_and_grad_def package_result_def warn_def nan_result_def Let_def
  key_eq_def feq_def keys_def

lemma ex_run1:
  "run_calls ex_self ex_st0 [[Fin 1, Fin 2]] =
     Inr ([\<lparr>res_fun = Fin 10, res_grad = [Fin 1, Fin 2]\<rparr>], ex_st1)"
  "ex_st1 = \<lparr>cache = [([Fin 1, Fin 2], \<lparr>res_fun = Fin 10, res_grad = [Fin 1, Fin 2]\<rparr>)],
       history = [], warnings = [],
       lf_calls = [[(''a'', Fin 1), (''s_rate_multiplier'', Fin 2), (''b'', Fin 3)]]\<rparr>"
  by (simp_all add: ex_st1_def eval_simps ex_fields ex_st0_eq ex_lf_def)

lemma guard_rejects_iff:
  "(\<exists>(k, v) \<in> set ps. isnan v \<or> (\<exists>b. map_of bs k = Some b \<and> \<not> in_bound b v))
     \<longleftrightarrow> (\<exists>w. check_params bs ps = Some w)"
proof -
  have "(\<exists>w. check_params bs ps = Some w) \<longleftrightarrow> check_params bs ps \<noteq> None"
    by auto
  also have "\<dots> \<longleftrightarrow>
    \<not> (\<forall>(k, v) \<in> set ps. \<not> isnan v \<and> (\<forall>b. map_of bs k = Some b \<longrightarrow> in_bound b v))"
    by (simp only: check_params_None)
  finally show ?thesis by (auto simp del: split_paired_All split_paired_Ex)
qed

section \<open>Calls, cache and history\<close>

lemma cache_inv_warn: "cache_inv self (st\<lparr>warnings := ws\<rparr>) = cache_inv self st"
  by (simp add: cache_inv_def)

lemma rejected_run:
  assumes "length x = length (arg_names self)"
    "check_params (bounds self) (params_of self x) = Some w"
  shows "cache_inv self st \<Longrightarrow>
    run_calls self st (replicate n x) =
      Inr (replicate n (nan_result self), st\<lparr>warnings := warnings st @ replicate n w\<rparr>)"
proof (induction n arbitrary: st)
  case 0
  then show ?case by simp
next
  case (Suc n)
  have c: "objective_call self st x = Inr (nan_result self, warn w st)"
    using Suc.prems assms by (rule rejected_call)
  have "cache_inv self (warn w st)"
    using Suc.prems by (simp add: warn_def cache_inv_warn)
  from Suc.IH [OF this] c show ?case
    by (simp add: warn_def replicate_app_Cons_same)
qed

lemma call_cache_grows:
  assumes "objective_call self st y = Inr (r, st1)" "cache st1 \<noteq> cache st"
  shows "lf_calls st1 = lf_calls st @ [params_of self y] \<and> accepts self y"
  using assms(1)
proof (cases rule: objective_call_cases)
  case hit
  with assms(2) show ?thesis by simp
next
  case (rejected w)
  with assms(2) show ?thesis by (simp add: warn_def)
next
  case (evaluated y' g)
  let ?st' = "st\<lparr>lf_calls := lf_calls st @ [params_of self y]\<rparr>"
  from evaluated(4)
  have "st1 = snd (package_result self y (params_of self y) y' g ?st')"
    by (metis snd_conv)
  then have "lf_calls st1 = lf_calls ?st'"
    by (simp add: package_result_lf_calls)
  with evaluated(2) show ?thesis by simp
qed

lemma hit_call:
  "memoize self \<Longrightarrow> cache_get (cache st) x = Some r \<Longrightarrow> objective_call self st x = Inr (r, st)"
  by (simp add: objective_call_def)

lemma call_cache_after:
  assumes "objective_call self st y = Inr (r, st1)"
  shows "cache st1 = cache st \<or>
    (memoize self \<and> cache_get (cache st) y = None \<and> accepts self y
       \<and> cache st1 = cache st @ [(y, r)])"
  using assms
proof (cases rule: objective_call_cases)
  case hit
  then show ?thesis by simp
next
  case (rejected w)
  then show ?thesis by (simp add: warn_def)
next
  case (evaluated y' g)
  let ?st' = "st\<lparr>lf_calls := lf_calls st @ [params_of self y]\<rparr>"
  have c1: "cache st1 = cache (snd (package_result self y (params_of self y) y' g ?st'))"
    and r: "r = fst (package_result self y (params_of self y) y' g ?st')"
    using evaluated(4) by (metis snd_conv, metis fst_conv)
  show ?thesis
  proof (cases "memoize self")
    case True
    with evaluated have "cache_get (cache st) y = None" by simp
    with c1 r True evaluated(2) show ?thesis
      by (simp add: package_result_cache cache_get_set_miss)
  next
    case False
    with c1 show ?thesis by (simp add: package_result_cache)
  qed
qed

lemma cache_get_mono_call:
  assumes "cache_get (cache st) x = Some r" "objective_call self st y = Inr (r', st1)"
  shows "cache_get (cache st1) x = Some r"
  using call_cache_after [OF assms(2)] assms(1)
  by (auto simp: cache_get_append)

lemma cache_get_mono_run:
  "cache_get (cache st) x = Some r \<Longrightarrow> run_calls self st ys = Inr (rs, st1)
     \<Longrightarrow> cache_get (cache st1) x = Some r"
proof (induction ys arbitrary: st rs)
  case Nil
  then show ?case by simp
next
  case (Cons y ys)
  from Cons.prems(2) obtain r' sta rs' where
    c: "objective_call self st y = Inr (r', sta)" and
    r: "run_calls self sta ys = Inr (rs', st1)"
    by (auto split: sum.splits)
  from cache_get_mono_call [OF Cons.prems(1) c] r show ?case
    by (rule Cons.IH)
qed

lemma first_call_caches:
  assumes "memoize self" "objective_call self st x = Inr (r, st1)" "accepts self x"
    "key_eq x x'"
  shows "cache_get (cache st1) x' = Some r"
proof -
  from assms(4) have xx: "x' = x" by (auto dest: key_eq_eq)
  from call_cache_after [OF assms(2)] show ?thesis
  proof
    assume same: "cache st1 = cache st"
    from assms(2) show ?thesis
    proof (cases rule: objective_call_cases)
      case hit
      then show ?thesis by (simp add: xx)
    next
      case (rejected w)
      with assms(3) show ?thesis by (simp add: accepts_def)
    next
      case (evaluated y g)
      let ?st' = "st\<lparr>lf_calls := lf_calls st @ [params_of self x]\<rparr>"
      have c1: "cache st1 = cache (snd (package_result self x (params_of self x) y g ?st'))"
        and r: "r = fst (package_result self x (params_of self x) y g ?st')"
        using evaluated(4) by (metis snd_conv, metis fst_conv)
      from evaluated(1) assms(1) have "cache_get (cache st) x = None" by simp
      with c1 r assms(1) have "cache st1 = cache st @ [(x, r)]"
        by (simp add: package_result_cache cache_get_set_miss)
      with same show ?thesis by simp
    qed
  next
    assume "memoize self \<and> cache_get (cache st) x = None \<and> accepts self x
       \<and> cache st1 = cache st @ [(x, r)]"
    with assms(4) show ?thesis
      by (simp add: cache_get_append xx)
  qed
qed

lemma later_call_same:
  assumes "memoize self" "cache_inv self st"
    and "objective_call self st x = Inr (r, st1)"
    and "run_calls self st1 mid = Inr (rs1, st2)"
    and "key_eq x x'"
  shows "\<exists>st3. objective_call self st2 x' = Inr (r, st3) \<and> lf_calls st3 = lf_calls st2"
proof (cases "accepts self x")
  case True
  from first_call_caches [OF assms(1,3) True assms(5)]
  have "cache_get (cache st1) x' = Some r" .
  then have "cache_get (cache st2) x' = Some r"
    using assms(4) by (rule cache_get_mono_run)
  with assms(1) have "objective_call self st2 x' = Inr (r, st2)" by (rule hit_call)
  then show ?thesis by simp
next
  case False
  from assms(5) have xx: "x' = x" by (auto dest: key_eq_eq)
  from assms(3) obtain w where
    len: "length x = length (arg_names self)" and
    w: "check_params (bounds self) (params_of self x) = Some w" and
    r: "r = nan_result self"
  proof (cases rule: objective_call_cases)
    case hit
    then have "(x, r) \<in> set (cache st)" by (simp add: cache_get_mem)
    with assms(2) have "accepts self x" by (auto simp: cache_inv_def list_all_iff)
    with False show ?thesis by simp
  next
    case (rejected w)
    then show ?thesis using that by simp
  next
    case (evaluated y g)
    with False show ?thesis by simp
  qed
  have "cache_inv self st2"
    using cache_inv_call [OF assms(2,3)] assms(4) by (rule cache_inv_run)
  then have "objective_call self st2 x = Inr (nan_result self, warn w st2)"
    using len w by (rule rejected_call)
  then show ?thesis by (simp add: xx r warn_def)
qed

lemma zip_subset_params:
  assumes "distinct names" "set names \<inter> set (keys fx) = {}" "length x = length names"
  shows "set (zip names x) \<subseteq> set (dict_merge (dict_of (zip names x)) fx)"
proof
  fix p assume p: "p \<in> set (zip names x)"
  obtain k v where kv: "p = (k, v)" by (cases p)
  from p kv have kin: "k \<in> set names" by (auto dest: set_zip_leftD)
  with assms(2) have "k \<notin> fst ` set (rev fx)" by (auto simp: keys_def)
  then have nfx: "map_of (rev fx) k = None" by (simp add: map_of_eq_None_iff)
  from assms(1,3) have dz: "distinct (map fst (zip names x))" by simp
  with p kv have "map_of (zip names x) k = Some v" by simp
  with dz have "map_of (dict_of (zip names x)) k = Some v"
    by (simp add: map_of_dict_of map_of_rev_distinct)
  with nfx have "map_of (dict_merge (dict_of (zip names x)) fx) k = Some v"
    by (simp add: dict_merge_def map_of_fold_update map_add_def)
  then show "p \<in> set (dict_merge (dict_of (zip names x)) fx)"
    by (simp add: kv map_of_SomeD)
qed

lemma accepts_no_nan:
  assumes "distinct (arg_names self)"
    "set (arg_names self) \<inter> set (keys (fixed self)) = {}" "accepts self x"
  shows "\<not> list_ex isnan x"
proof -
  from assms(3) have len: "length x = length (arg_names self)"
    and chk: "check_params (bounds self) (params_of self x) = None"
    by (simp_all add: accepts_def)
  have "\<not> isnan v" if "v \<in> set x" for v
  proof -
    from that len obtain k where "(k, v) \<in> set (zip (arg_names self) x)"
      by (metis in_set_impl_in_set_zip2)
    with zip_subset_params [OF assms(1,2) len]
    have "(k, v) \<in> set (params_of self x)" by (auto simp: params_of_def)
    with chk show ?thesis by (auto simp: check_params_None)
  qed
  then show ?thesis by (auto simp: list_ex_iff)
qed

lemma fresh_names:
  assumes "fresh_instance kw self st" "distinct (param_names (kw_lf kw))"
  shows "distinct (arg_names self)" "set (arg_names self) \<inter> set (keys (fixed self)) = {}"
  using assms(2) by (auto simp: fresh_instance_fields [OF assms(1)])

lemma memoized_call_effect:
  assumes "memoize self" "objective_call self st y = Inr (r, st1)"
  shows "if cache_get (cache st) y \<noteq> None \<or> \<not> accepts self y
         then cache st1 = cache st \<and> lf_calls st1 = lf_calls st
         else cache st1 = cache st @ [(y, r)] \<and> lf_calls st1 = lf_calls st @ [params_of self y]"
  using assms(2)
proof (cases rule: objective_call_cases)
  case hit
  then show ?thesis by simp
next
  case (rejected w)
  then show ?thesis by (simp add: warn_def accepts_def)
next
  case (evaluated y' g)
  let ?st' = "st\<lparr>lf_calls := lf_calls st @ [params_of self y]\<rparr>"
  have st1: "st1 = snd (package_result self y (params_of self y) y' g ?st')"
    and r: "r = fst (package_result self y (params_of self y) y' g ?st')"
    using evaluated(4) by (metis snd_conv, metis fst_conv)
  from evaluated(1) assms(1) have miss: "cache_get (cache st) y = None" by simp
  have "cache st1 = cache st @ [(y, r)]"
    using st1 r assms(1) miss by (simp add: package_result_cache cache_get_set_miss)
  moreover have "lf_calls st1 = lf_calls st @ [params_of self y]"
    using st1 by (simp add: package_result_lf_calls)
  ultimately show ?thesis using miss evaluated(2) by simp
qed

lemma invocations_bounded:
  assumes "memoize self" "\<And>x. accepts self x \<Longrightarrow> \<not> list_ex isnan x"
  shows "run_calls self st xs = Inr (rs, st') \<Longrightarrow>
    length (lf_calls st') \<le> length (lf_calls st) + card (set xs - cached_keys st)"
proof (induction xs arbitrary: st rs)
  case Nil
  then show ?case by simp
next
  case (Cons x xs)
  from Cons.prems obtain r sta rs' where
    c: "objective_call self st x = Inr (r, sta)" and
    r: "run_calls self sta xs = Inr (rs', st')"
    by (auto split: sum.splits)
  note ih = Cons.IH [OF r]
  note eff = memoized_call_effect [OF assms(1) c]
  show ?case
  proof (cases "cache_get (cache st) x \<noteq> None \<or> \<not> accepts self x")
    case True
    with eff have same: "cache sta = cache st" and nolf: "lf_calls sta = lf_calls st"
      by simp_all
    from same have ck: "cached_keys sta = cached_keys st" by (simp add: cached_keys_def)
    have "card (set xs - cached_keys st) \<le> card (set (x # xs) - cached_keys st)"
      by (rule card_mono) auto
    with ih ck nolf show ?thesis by simp
  next
    case False
    with eff have grow: "cache sta = cache st @ [(x, r)]"
      and l1: "lf_calls sta = lf_calls st @ [params_of self x]"
      by simp_all
    from False have miss: "cache_get (cache st) x = None" and acc: "accepts self x"
      by simp_all
    from acc have nonan: "key_eq x x" using assms(2) by (simp add: key_eq_refl)
    have ck: "cached_keys sta = insert x (cached_keys st)"
      using grow nonan
      by (auto simp: cached_keys_def cache_get_append dest: key_eq_eq split: option.splits if_splits)
    from miss have xn: "x \<notin> cached_keys st" by (simp add: cached_keys_def)
    have "set (x # xs) - cached_keys st = insert x (set xs - insert x (cached_keys st))"
      using xn by auto
    then have "card (set (x # xs) - cached_keys st) = Suc (card (set xs - insert x (cached_keys st)))"
      by simp
    with ih ck l1 show ?thesis by simp
  qed
qed

lemma ex_h_init: "objective_init Minuit True ex_kw_h = Inr (ex_h, ex_st0)"
  by (simp add: ex_h_def ex_st0_def objective_init_def ex_kw_h_def ex_kw_def default_kwargs_def
      ex_lf_def dict_merge_def keys_def Let_def)

lemma ex_h_fresh: "fresh_instance ex_kw_h ex_h ex_st0"
  unfolding fresh_instance_def using ex_h_init by blast

lemma ex_h_fields:
  "arg_names ex_h = [''a'', ''s_rate_multiplier'']"
  "fixed ex_h = [(''b'', Fin 3)]"
  "bounds ex_h = [(''s_rate_multiplier'', (Some LOWER_RATE_MULTIPLIER_BOUND, None))]"
  "nan_val ex_h = PInf"
  "memoize ex_h"
  "interval ex_h = None"
  "return_history ex_h = True"
  "lf ex_h = ex_lf"
  by (simp_all add: ex_h_def objective_init_def ex_kw_h_def ex_kw_def default_kwargs_def
      ex_lf_def dict_merge_def keys_def Let_def endswith_def setdefault_def memoize_def)

lemma ex_h_run1:
  "run_calls ex_h ex_st0 [[Fin 1, Fin 2]] =
     Inr ([\<lparr>res_fun = Fin 10, res_grad = [Fin 1, Fin 2]\<rparr>], ex_h1)"
  "ex_h1 = \<lparr>cache = [([Fin 1, Fin 2], \<lparr>res_fun = Fin 10, res_grad = [Fin 1, Fin 2]\<rparr>)],
       history = [\<lparr>h_params = [(''a'', Fin 1), (''s_rate_multiplier'', Fin 2), (''b'', Fin 3)],
                   h_y = Fin 10, h_grad = [Fin 1, Fin 2]\<rparr>],
       warnings = [],
       lf_calls = [[(''a'', Fin 1), (''s_rate_multiplier'', Fin 2), (''b'', Fin 3)]]\<rparr>"
  by (simp_all add: ex_h1_def eval_simps ex_h_fields ex_st0_eq ex_lf_def)

lemma call_history:
  assumes "return_history self" "objective_call self st x = Inr (r, st1)"
  shows "if (memoize self \<and> cache_get (cache st) x \<noteq> None) \<or> \<not> accepts self x
         then history st1 = history st \<and> lf_calls st1 = lf_calls st
         else \<exists>y g st'. inner_fun_and_grad self st (params_of self x) = Inr ((y, g), st')
                \<and> history st1 = history st @ [\<lparr>h_params = params_of self x, h_y = y, h_grad = g\<rparr>]
                \<and> lf_calls st1 = lf_calls st @ [params_of self x]"
  using assms(2)
proof (cases rule: objective_call_cases)
  case hit
  then show ?thesis by simp
next
  case (rejected w)
  then show ?thesis by (simp add: warn_def accepts_def)
next
  case (evaluated y g)
  let ?st' = "st\<lparr>lf_calls := lf_calls st @ [params_of self x]\<rparr>"
  have st1: "st1 = snd (package_result self x (params_of self x) y g ?st')"
    using evaluated(4) by (metis snd_conv)
  have "history st1 = history st @ [\<lparr>h_params = params_of self x, h_y = y, h_grad = g\<rparr>]"
    using st1 assms(1) by (simp add: package_result_history)
  moreover have "lf_calls st1 = lf_calls st @ [params_of self x]"
    using st1 by (simp add: package_result_lf_calls)
  ultimately show ?thesis using evaluated(1,2,3) by auto
qed

lemma run_history:
  assumes "return_history self"
  shows "run_calls self st xs = Inr (rs, st') \<Longrightarrow>
    \<exists>new. history st' = history st @ new \<and> lf_calls st' = lf_calls st @ map h_params new"
proof (induction xs arbitrary: st rs)
  case Nil
  then show ?case by simp
next
  case (Cons x xs)
  from Cons.prems obtain r sta rs' where
    c: "objective_call self st x = Inr (r, sta)" and
    r: "run_calls self sta xs = Inr (rs', st')"
    by (auto split: sum.splits)
  have "\<exists>n1. history sta = history st @ n1 \<and> lf_calls sta = lf_calls st @ map h_params n1"
  proof (cases "(memoize self \<and> cache_get (cache st) x \<noteq> None) \<or> \<not> accepts self x")
    case True
    with call_history [OF assms c] show ?thesis
      by (intro exI [of _ "[]"]) simp
  next
    case False
    with call_history [OF assms c] obtain y g where
      "history sta = history st @ [\<lparr>h_params = params_of self x, h_y = y, h_grad = g\<rparr>]"
      "lf_calls sta = lf_calls st @ [params_of self x]"
      by auto
    then show ?thesis
      by (intro exI [of _ "[\<lparr>h_params = params_of self x, h_y = y, h_grad = g\<rparr>]"]) simp
  qed
  then obtain n1 where
    n1: "history sta = history st @ n1" "lf_calls sta = lf_calls st @ map h_params n1"
    by blast
  from Cons.IH [OF r] obtain n2 where
    n2: "history st' = history sta @ n2" "lf_calls st' = lf_calls sta @ map h_params n2"
    by blast
  from n1 n2 show ?case by (intro exI [of _ "n1 @ n2"]) simp
qed

section \<open>Codec, minimization and interval search\<close>

lemma keys_dict_of_zip:
  "length ks = length vs \<Longrightarrow> set (keys (dict_of (zip ks vs))) = set ks"
  using keys_fold_update [of "zip ks vs" "[]"] by (simp add: dict_of_def keys_def)

lemma ex_fields2:
  "backend ex_self = Scipy" "allow_failure ex_self = False"
  "get_lowlevel_result ex_self = False" "return_errors ex_self = False"
  by (simp_all add: ex_self_def objective_init_def ex_kw_def default_kwargs_def
      ex_lf_def dict_merge_def keys_def Let_def)

lemma ex_af_fields:
  "backend ex_af = Scipy" "allow_failure ex_af = True"
  "arg_names ex_af = [''a'', ''s_rate_multiplier'']"
  by (simp_all add: ex_af_def objective_init_def ex_kw_af_def ex_kw_def default_kwargs_def
      ex_lf_def dict_merge_def keys_def Let_def)

lemma parse_result_keys:
  assumes "parse_result self st raw = Inr ((est, v), st')"
  shows "set (keys est) \<subseteq> set (arg_names self)"
proof -
  have k: "set (keys (dict_of (zip (arg_names self) xs))) \<subseteq> set (arg_names self)" for xs :: "pyfloat list"
    using keys_fold_update [of "zip (arg_names self) xs" "[]"]
    by (auto simp: dict_of_def keys_def dest: set_zip_leftD)
  from assms show ?thesis
    using k
    by (auto simp: parse_result_def scipy_parse_result_def tfp_parse_result_def
          minuit_parse_result_def
        split: backend.splits raw_result.splits sum.splits if_splits)
qed

lemma minimize_backend_guess:
  assumes "minimize_backend self st run = Inr (raw, st1)"
  shows "set (arg_names self) \<subseteq> set (keys (guess self))" "raw = outcome run"
proof -
  from assms obtain xg where "dict_to_array self (guess self) = Inr xg"
    by (auto simp: minimize_backend_def split: if_splits sum.splits)
  then show "set (arg_names self) \<subseteq> set (keys (guess self))"
    by (simp add: dict_to_array_def lookup_all_keys)
  from assms show "raw = outcome run"
    by (auto simp: minimize_backend_def split: if_splits sum.splits)
qed

lemma compare_with_guess_total:
  "set (keys est) \<subseteq> set (keys (guess self)) \<Longrightarrow>
   \<exists>st'. compare_with_guess self st est = Inr st'
     \<and> (\<forall>(k, v) \<in> set est. \<forall>g. map_of (guess self) k = Some g \<and> feq g v
           \<longrightarrow> EqualToGuess k v \<in> set (warnings st'))
     \<and> set (warnings st) \<subseteq> set (warnings st')"
proof (induction est arbitrary: st)
  case Nil
  then show ?case by simp
next
  case (Cons p est)
  obtain k v where p: "p = (k, v)" by (cases p)
  from Cons.prems have "k \<in> fst ` set (guess self)" by (simp add: p keys_def)
  then obtain g where g: "map_of (guess self) k = Some g"
    by (metis domD dom_map_of_conv_image_fst)
  let ?st = "if feq g v then warn (EqualToGuess k v) st else st"
  from Cons.prems have "set (keys est) \<subseteq> set (keys (guess self))"
    by (simp add: keys_def)
  from Cons.IH [OF this, of ?st] obtain st' where
    c: "compare_with_guess self ?st est = Inr st'" and
    w: "\<forall>(k, v) \<in> set est. \<forall>g. map_of (guess self) k = Some g \<and> feq g v
           \<longrightarrow> EqualToGuess k v \<in> set (warnings st')" and
    m: "set (warnings ?st) \<subseteq> set (warnings st')"
    by blast
  have "compare_with_guess self st (p # est) = Inr st'"
    using c g by (simp add: p getitem_def)
  moreover have "feq g v \<longrightarrow> EqualToGuess k v \<in> set (warnings st')"
    using m by (auto simp: warn_def)
  moreover have "set (warnings st) \<subseteq> set (warnings st')"
    using m by (auto simp: warn_def split: if_splits)
  ultimately show ?case using w g by (auto simp: p)
qed

lemma ex_neg_fields:
  "arg_names ex_neg = [''a'', ''s_rate_multiplier'']"
  "guess ex_neg = [(''a'', Fin (- 5)), (''s_rate_multiplier'', Fin 1), (''b'', Fin 3)]"
  "optimizer_error ex_neg = None"
  by (simp_all add: ex_neg_def objective_init_def ex_kw_neg_def ex_kw_def default_kwargs_def
      ex_lf_def dict_merge_def keys_def Let_def)

lemma ex_neg_init: "objective_init Minuit True ex_kw_neg = Inr (ex_neg, ex_st0)"
  by (simp add: ex_neg_def ex_st0_def objective_init_def ex_kw_neg_def ex_kw_def
      default_kwargs_def ex_lf_def dict_merge_def keys_def Let_def)

lemma default_error_nth:
  assumes "i < length xg"
  shows "default_error xg ! i = np_maximum (fmul (xg ! i) (Fin (1 / 10))) (Fin (1 / 1000))"
  using assms by (simp add: default_error_def)

lemma interval_init_cases:
  assumes "interval_init cls wilks ia kw = Inr (self, st)"
  obtains self0 st0 sigma tp m2ll grad slope tp_guess where
    "objective_init cls False kw = Inr (self0, st0)"
    "getitem (ia_bestfit ia) (ia_target_parameter ia) = Inr tp"
    "base_inner_fun_and_grad self0 st0 (ia_bestfit ia) = ((m2ll, grad), st)"
    "at_index_of grad (param_names (lf self0)) (ia_target_parameter ia) = Inr slope"
    "(case map_of (guess self0) (ia_target_parameter ia) of
        None \<Rightarrow> derive_tp_guess wilks (ia_target_parameter ia) (ia_critical_quantile ia)
                  sigma slope tp (ia_direction ia)
      | Some g \<Rightarrow> Inr g) = Inr tp_guess"
    "guess_in_bounds (bounds self0) (ia_target_parameter ia) tp_guess"
    "self = self0\<lparr>guess := dict_merge (dict_merge (ia_bestfit ia)
                                [(ia_target_parameter ia, tp_guess)]) (guess self0),
                  absolute_ftol :=
                    fmul (ia_tol_multiplier ia) (fmul (llr_tolerance self0) (llr_tolerance self0)),
                  interval := Some
                    \<lparr>target_parameter = ia_target_parameter ia, bestfit = ia_bestfit ia,
                     direction = ia_direction ia,
                     critical_quantile = ia_critical_quantile ia,
                     tol_multiplier = ia_tol_multiplier ia,
                     sigma_guess = sigma,
                     t_ppf_arg = ia_t_ppf ia,
                     t_ppf_grad_arg = ia_t_ppf_grad ia,
                     wilks_crit = wilks,
                     tilt = fmul (fmul (Fin 4) (llr_tolerance self0)) (ia_critical_quantile ia),
                     bestfit_tp = tp,
                     m2ll_best = m2ll, bestfit_tp_slope = slope\<rparr>\<rparr>"
  using assms unfolding interval_init_def Let_def
  by (auto split: sum.splits prod.splits if_splits)

lemma derive_tp_guess_finite:
  assumes "wilks cq = Fin dy" "0 \<le> dy"
  shows "derive_tp_guess wilks target cq (Fin s) (Fin sl) (Fin b) dir
     = Inr (Fin (max (1 / 10 ^ 9)
          (b + of_int dir * (if sl = 0 then sqrt (2 * dy) * \<bar>s\<bar>
                             else min (sqrt (2 * dy) * \<bar>s\<bar>) \<bar>dy / sl\<bar>))))"
  using assms
  by (auto simp: derive_tp_guess_def Let_def feq_def py_min_def py_max_def
      LOWER_RATE_MULTIPLIER_BOUND_def max_def min_def)

lemma derive_tp_guess_steps:
  assumes "wilks cq = Fin dy" "0 \<le> dy"
  shows "derive_tp_guess wilks target cq (Fin s) (Fin sl) (Fin b) dir
     = Inr (py_max LOWER_RATE_MULTIPLIER_BOUND
             (fadd (Fin b) (fmul (Fin (of_int dir))
                (py_min (Fin (sqrt (2 * dy) * \<bar>s\<bar>))
                        (if sl = 0 then PInf else Fin \<bar>dy / sl\<bar>)))))"
  using assms
  by (auto simp: derive_tp_guess_def Let_def feq_def py_min_def py_max_def
      LOWER_RATE_MULTIPLIER_BOUND_def)

lemma sqrt_example: "\<bar>max (1 / 10 ^ 9) (5 + 1 * (sqrt (2 * (27055 / 10000)) * \<bar>2\<bar>)) - 9652 / 1000\<bar> < (1 / 1000 :: real)"
proof -
  have lo: "(2326 / 1000 :: real) < sqrt (2 * (27055 / 10000))"
    by (rule real_less_rsqrt) (simp add: power2_eq_square)
  have hi: "sqrt (2 * (27055 / 10000)) < (23264 / 10000 :: real)"
    by (rule real_less_lsqrt) (simp_all add: power2_eq_square)
  from lo hi show ?thesis by (simp add: max_def abs_if)
qed

lemma map_of_merge_target:
  assumes "target \<notin> set (keys g0)"
  shows "map_of (dict_merge (dict_merge best [(target, v)]) g0) target = Some v"
proof -
  from assms have "target \<notin> fst ` set (rev g0)" by (simp add: keys_def)
  then have "map_of (rev g0) target = None" by (simp add: map_of_eq_None_iff)
  then show ?thesis
    by (simp add: dict_merge_def map_of_fold_update map_add_def update_conv')
qed

lemma ex_iv_init:
  "interval_init Scipy ex_wilks ex_ia (default_kwargs ex_lf_iv) = Inr (ex_iv, ex_iv_st0)"
  by (simp add: ex_iv_def ex_iv_st0_def interval_init_def objective_init_def ex_ia_def
      default_kwargs_def ex_lf_iv_def dict_merge_def keys_def Let_def getitem_def
      base_inner_fun_and_grad_def at_index_of_def derive_tp_guess_def ex_wilks_def
      guess_in_bounds_def endswith_def feq_def)

lemma ex_iv_fields:
  "interval ex_iv = Some ex_iv_ctx"
  "sigma_guess ex_iv_ctx = Fin 2" "bestfit_tp ex_iv_ctx = Fin 5"
  "bestfit_tp_slope ex_iv_ctx = Fin 0" "m2ll_best ex_iv_ctx = Fin 10"
  "target_parameter ex_iv_ctx = ''t''" "direction ex_iv_ctx = 1"
  "critical_quantile ex_iv_ctx = Fin (9 / 10)"
  "tilt ex_iv_ctx = Fin (18 / 100)"
  "t_ppf_arg ex_iv_ctx = None"
  "wilks_crit ex_iv_ctx = ex_wilks"
  "arg_names ex_iv = [''t'', ''s'']" "fixed ex_iv = []" "lf ex_iv = ex_lf_iv"
  "llr_tolerance ex_iv = Fin (5 / 100)"
  "ex_iv_st0 = \<lparr>cache = [], history = [], warnings = [],
                lf_calls = [[(''t'', Fin 5), (''s'', Fin 1)]]\<rparr>"
  by (simp_all add: ex_iv_ctx_def ex_iv_def ex_iv_st0_def interval_init_def objective_init_def
      ex_ia_def default_kwargs_def ex_lf_iv_def dict_merge_def keys_def Let_def getitem_def
      base_inner_fun_and_grad_def at_index_of_def derive_tp_guess_def ex_wilks_def
      guess_in_bounds_def endswith_def feq_def)

lemma absolute_to_relative_tol_id: "absolute_to_relative_tol t = Inr t"
  by (cases t) (simp_all add: absolute_to_relative_tol_def offset_def inf_times_def)

lemma interval_inner_finite:
  assumes "map_of ps (target_parameter c) = Some (Fin x)"
    and "sigma_guess c = Fin s" and "s \<noteq> 0"
    and "bestfit_tp c = Fin b" and "m2ll_best c = Fin m"
    and "minus_ll (lf self) (length (lf_calls st)) ps (keys (fixed self)) = (Fin f, map Fin gs)"
    and "t_ppf c (Fin x) = Fin tp" and "t_ppf_grad c (Fin x) = Inr (Fin tg)"
    and "tilt c = Fin tlt"
    and "list_index (arg_names self) (target_parameter c) = Inr i" and "i < length gs"
  shows "interval_inner_fun_and_grad self c st ps =
     Inr ((Fin (((f - m) - tp)\<^sup>2 - of_int (direction c) * tlt * ((x - b) / s) + 1),
           map Fin ((map (\<lambda>g. 2 * ((f - m) - tp) * (g - tg)) gs)
                      [i := 2 * ((f - m) - tp) * (gs ! i - tg) - of_int (direction c) * tlt / s])),
          st\<lparr>lf_calls := lf_calls st @ [ps]\<rparr>)"
proof -
  have L: "(map ((\<lambda>g. fmul (Fin A) (fadd g (Fin (- tg)))) \<circ> Fin) gs)[i := Fin E]
      = map Fin ((map (\<lambda>g. A * (g - tg)) gs)[i := E])" for A E
    by (simp add: map_update comp_def)
  show ?thesis
    using assms
    by (simp add: interval_inner_fun_and_grad_def getitem_def fsub_def
        base_inner_fun_and_grad_def Let_def offset_def power2_eq_square L)
qed

section \<open>Rejected vectors and parsed estimates\<close>

lemma ex_m0_eq:
  "ex_m0 = \<lparr>cache = [], history = [],
            warnings = [ParamOutOfBounds ''s_rate_multiplier'' (Fin (- 1))
                          (Some LOWER_RATE_MULTIPLIER_BOUND, None)],
            lf_calls = []\<rparr>"
  by (simp add: ex_m0_def eval_simps ex_fields ex_st0_eq)

lemma ex_m1_eq:
  "ex_m1 = \<lparr>cache = [([Fin 1, Fin 2], \<lparr>res_fun = Fin 10, res_grad = [Fin 1, Fin 2]\<rparr>)],
            history = [],
            warnings = [ParamOutOfBounds ''s_rate_multiplier'' (Fin (- 1))
                          (Some LOWER_RATE_MULTIPLIER_BOUND, None)],
            lf_calls = [[(''a'', Fin 1), (''s_rate_multiplier'', Fin 2), (''b'', Fin 3)]]\<rparr>"
  by (simp add: ex_m1_def ex_m0_eq eval_simps ex_fields ex_lf_def)

lemma ex_m2_eq:
  "ex_m2 = \<lparr>cache = [([Fin 1, Fin 2], \<lparr>res_fun = Fin 10, res_grad = [Fin 1, Fin 2]\<rparr>)],
            history = [],
            warnings = [ParamOutOfBounds ''s_rate_multiplier'' (Fin (- 1))
                          (Some LOWER_RATE_MULTIPLIER_BOUND, None), ParamIsNaN ''a''],
            lf_calls = [[(''a'', Fin 1), (''s_rate_multiplier'', Fin 2), (''b'', Fin 3)]]\<rparr>"
  by (simp add: ex_m2_def ex_m1_eq eval_simps ex_fields)

lemma ex_m_runs:
  "run_calls ex_self ex_st0 [[Fin 1, Fin (- 1)]] = Inr ([nan_result ex_self], ex_m0)"
  "objective_call ex_self ex_m0 [Fin 1, Fin 2]
     = Inr (\<lparr>res_fun = Fin 10, res_grad = [Fin 1, Fin 2]\<rparr>, ex_m1)"
  "run_calls ex_self ex_m1 [[NaN, Fin 2]] = Inr ([nan_result ex_self], ex_m2)"
  "run_calls ex_self ex_st0 [[Fin 1, Fin (- 1)], [Fin 1, Fin 2]]
     = Inr ([nan_result ex_self, \<lparr>res_fun = Fin 10, res_grad = [Fin 1, Fin 2]\<rparr>], ex_m1)"
  "objective_call ex_self ex_m1 [NaN, Fin 2] = Inr (nan_result ex_self, ex_m2)"
  "run_calls ex_self ex_m2 [[Fin 1, Fin 2]]
     = Inr ([\<lparr>res_fun = Fin 10, res_grad = [Fin 1, Fin 2]\<rparr>], ex_m2)"
  by (simp_all add: ex_m0_eq ex_m1_eq ex_m2_eq eval_simps ex_fields ex_st0_eq ex_lf_def)

lemma rejected_call_again:
  assumes "cache_inv self st" and "objective_call self st x = Inr (r, st1)"
    and "\<not> accepts self x" and "run_calls self st1 mid = Inr (rs1, st2)"
  shows "r = nan_result self \<and> cache st1 = cache st \<and> lf_calls st1 = lf_calls st
     \<and> cache_get (cache st2) x = None
     \<and> (\<exists>st3. objective_call self st2 x = Inr (r, st3) \<and> lf_calls st3 = lf_calls st2
            \<and> cache st3 = cache st2)"
proof -
  from assms(2) obtain w where
    len: "length x = length (arg_names self)" and
    w: "check_params (bounds self) (params_of self x) = Some w" and
    r: "r = nan_result self" and st1: "st1 = warn w st"
  proof (cases rule: objective_call_cases)
    case hit
    then have "(x, r) \<in> set (cache st)" by (simp add: cache_get_mem)
    with assms(1) have "accepts self x" by (auto simp: cache_inv_def list_all_iff)
    with assms(3) show ?thesis by simp
  next
    case (rejected w)
    then show ?thesis using that by simp
  next
    case (evaluated y g)
    with assms(3) show ?thesis by simp
  qed
  have inv2: "cache_inv self st2"
    using cache_inv_call [OF assms(1,2)] assms(4) by (rule cache_inv_run)
  then have miss: "cache_get (cache st2) x = None"
    using assms(3) by (rule cache_inv_miss)
  have "objective_call self st2 x = Inr (nan_result self, warn w st2)"
    using inv2 len w by (rule rejected_call)
  then have "\<exists>st3. objective_call self st2 x = Inr (r, st3) \<and> lf_calls st3 = lf_calls st2
            \<and> cache st3 = cache st2"
    by (simp add: r warn_def)
  with r st1 miss show ?thesis by (simp add: warn_def)
qed

lemma dict_of_zip_nth:
  assumes "distinct names" "length xs = length names" "i < length names"
  shows "map_of (dict_of (zip names xs)) (names ! i) = Some (xs ! i)"
proof -
  from assms(1,2) have "distinct (map fst (zip names xs))" by simp
  then have "map_of (dict_of (zip names xs)) (names ! i) = map_of (zip names xs) (names ! i)"
    by (simp add: map_of_dict_of map_of_rev_distinct)
  also have "\<dots> = Some (xs ! i)"
    using assms by (simp add: map_of_zip_nth)
  finally show ?thesis .
qed

lemma scipy_parse_est:
  assumes "parse_result self st (ScipyRaw r) = Inr ((est, v), st')"
  shows "est = dict_of (zip (arg_names self) (sx r))"
  using assms
  by (auto simp: parse_result_def scipy_parse_result_def
      split: backend.splits sum.splits if_splits)

lemma tfp_parse_est:
  assumes "parse_result self st (TfpRaw t) = Inr ((est, v), st')"
  shows "est = dict_of (zip (arg_names self) (position t))"
  using assms
  by (auto simp: parse_result_def tfp_parse_result_def
      split: backend.splits sum.splits if_splits)

lemma minuit_parse_est:
  assumes "parse_result self st (MinuitRaw f) = Inr ((est, v), st')"
  shows "set (arg_names self) \<subseteq> set (keys (fitarg f))"
    "est = dict_of (zip (arg_names self)
             (map (\<lambda>k. the (map_of (fitarg f) k)) (arg_names self)))"
proof -
  from assms obtain vs where
    l: "lookup_all (fitarg f) (arg_names self) = Inr vs" and
    e: "est = dict_of (zip (arg_names self) vs)"
    by (auto simp: parse_result_def minuit_parse_result_def
        split: backend.splits sum.splits if_splits)
  from l show sub: "set (arg_names self) \<subseteq> set (keys (fitarg f))"
    by (simp add: lookup_all_keys)
  from lookup_all_Inr [OF sub] l e
  show "est = dict_of (zip (arg_names self)
             (map (\<lambda>k. the (map_of (fitarg f) k)) (arg_names self)))"
    by simp
qed

section \<open>The claims\<close>

text \<open>
  Claim C1.  On every instance, after any run of calls: when the vector decodes and some
  parameter of the merged mapping is NaN, or has a bound and lies outside it (lower bound
  closed, upper bound open), \<^verbatim>\<open>__call__\<close> returns the poisoned result, whose value is
  \<^verbatim>\<open>nan_val\<close> and whose gradient is one NaN for each fitted parameter; it emits one
  warning and does not invoke the likelihood.  The default of \<^verbatim>\<open>nan_val\<close> is \<open>+inf\<close>.
\<close>

theorem guard_returns_poisoned_result:
  assumes "fresh_instance kw self st0"
    and "run_calls self st0 xs = Inr (rs, st)"
    and "length x = length (arg_names self)"
    and "\<exists>(k, v) \<in> set (params_of self x).
           isnan v \<or> (\<exists>b. map_of (bounds self) k = Some b \<and> \<not> in_bound b v)"
  shows "\<exists>w. objective_call self st x = Inr (nan_result self, warn w st)
           \<and> lf_calls (warn w st) = lf_calls st
           \<and> res_fun (nan_result self) = kw_nan_val kw
           \<and> res_grad (nan_result self) = replicate (length (arg_names self)) NaN
           \<and> kw_nan_val (default_kwargs l) = PInf"
proof -
  from assms(4) obtain w where
    w: "check_params (bounds self) (params_of self x) = Some w"
    unfolding guard_rejects_iff by blast
  have inv: "cache_inv self st"
    using cache_inv_fresh [OF assms(1)] assms(2) by (rule cache_inv_run)
  have "objective_call self st x = Inr (nan_result self, warn w st)"
    using inv assms(3) w by (rule rejected_call)
  moreover have "res_fun (nan_result self) = kw_nan_val kw"
    by (simp add: nan_result_def fresh_instance_fields [OF assms(1)])
  ultimately show ?thesis
    by (auto simp: warn_def nan_result_def default_kwargs_def)
qed

theorem guard_returns_poisoned_result_witness:
  "fresh_instance ex_kw ex_self ex_st0
   \<and> run_calls ex_self ex_st0 [[Fin 1, Fin 2]]
       = Inr ([\<lparr>res_fun = Fin 10, res_grad = [Fin 1, Fin 2]\<rparr>], ex_st1)
   \<and> length [NaN, Fin 2] = length (arg_names ex_self)
   \<and> (''a'', NaN) \<in> set (params_of ex_self [NaN, Fin 2])
   \<and> objective_call ex_self ex_st1 [NaN, Fin 2]
       = Inr (\<lparr>res_fun = PInf, res_grad = [NaN, NaN]\<rparr>, warn (ParamIsNaN ''a'') ex_st1)
   \<and> lf_calls (warn (ParamIsNaN ''a'') ex_st1) = lf_calls ex_st1"
proof -
  have h3: "length [NaN, Fin 2] = length (arg_names ex_self)"
    by (simp add: ex_fields)
  have mem: "(''a'', NaN) \<in> set (params_of ex_self [NaN, Fin 2])"
    by (simp add: eval_simps ex_fields)
  then have h4: "\<exists>(k, v) \<in> set (params_of ex_self [NaN, Fin 2]).
      isnan v \<or> (\<exists>b. map_of (bounds ex_self) k = Some b \<and> \<not> in_bound b v)"
    by (intro bexI [of _ "(''a'', NaN)"]) simp_all
  from guard_returns_poisoned_result [OF ex_fresh ex_run1(1) h3 h4]
  obtain w where
    c: "objective_call ex_self ex_st1 [NaN, Fin 2] = Inr (nan_result ex_self, warn w ex_st1)"
    and l: "lf_calls (warn w ex_st1) = lf_calls ex_st1"
    by blast
  have e: "objective_call ex_self ex_st1 [NaN, Fin 2]
      = Inr (\<lparr>res_fun = PInf, res_grad = [NaN, NaN]\<rparr>, warn (ParamIsNaN ''a'') ex_st1)"
    by (simp add: eval_simps ex_fields ex_run1(2))
  from c e have "warn w ex_st1 = warn (ParamIsNaN ''a'') ex_st1" by simp
  with l ex_fresh ex_run1(1) h3 mem e show ?thesis by simp
qed

text \<open>
  Claim C2 says that the first call with any vector caches its result.  A vector that
  the guard rejects is a counterexample: here the rate multiplier is \<open>-1\<close>, below its
  default lower bound; the call returns the poisoned result and the cache stays empty.
\<close>

theorem first_call_always_caches_counterexample:
  "objective_init Scipy True ex_kw = Inr (ex_self, ex_st0)
   \<and> memoize ex_self
   \<and> cache_get (cache ex_st0) [Fin 1, Fin (- 1)] = None
   \<and> objective_call ex_self ex_st0 [Fin 1, Fin (- 1)]
       = Inr (nan_result ex_self,
              warn (ParamOutOfBounds ''s_rate_multiplier'' (Fin (- 1))
                      (Some LOWER_RATE_MULTIPLIER_BOUND, None)) ex_st0)
   \<and> cache (warn (ParamOutOfBounds ''s_rate_multiplier'' (Fin (- 1))
                      (Some LOWER_RATE_MULTIPLIER_BOUND, None)) ex_st0) = []"
  by (simp add: ex_init eval_simps ex_fields ex_st0_eq)

text \<open>
  Claim C2, amended.  On a memoizing instance, after any run of calls: a call with a
  vector that passes the guard and is not yet in the cache invokes the likelihood once
  and stores its result under that vector; a call with a vector that the guard rejects
  returns the poisoned result, invokes nothing and leaves the cache as it was, and the
  vector is not in the cache later either.  After any further calls, a call with a vector
  whose components compare equal to those of \<open>x\<close> returns the same result and does not
  invoke the likelihood; so does a call with a rejected \<open>x\<close> itself, NaN components
  included, and, when the likelihood's parameter names are distinct, a call with any
  \<open>x\<close> itself.  Hence, the names being distinct, a run of calls invokes the likelihood
  at most once for each distinct vector.
\<close>

theorem memoized_calls:
  assumes "memoize self" and "fresh_instance kw self st0"
    and "run_calls self st0 pre = Inr (rs0, st)"
    and "objective_call self st x = Inr (r, st1)"
    and "run_calls self st1 mid = Inr (rs1, st2)"
  shows "(accepts self x \<and> cache_get (cache st) x = None \<longrightarrow>
            lf_calls st1 = lf_calls st @ [params_of self x] \<and> cache st1 = cache st @ [(x, r)])
       \<and> (\<not> accepts self x \<longrightarrow>
            r = nan_result self \<and> cache st1 = cache st \<and> lf_calls st1 = lf_calls st
            \<and> cache_get (cache st2) x = None)
       \<and> (key_eq x x' \<longrightarrow>
            (\<exists>st3. objective_call self st2 x' = Inr (r, st3) \<and> lf_calls st3 = lf_calls st2))
       \<and> (\<not> accepts self x \<longrightarrow>
            (\<exists>st3. objective_call self st2 x = Inr (r, st3) \<and> lf_calls st3 = lf_calls st2
                \<and> cache st3 = cache st2))
       \<and> (distinct (param_names (kw_lf kw)) \<longrightarrow>
            (\<exists>st3. objective_call self st2 x = Inr (r, st3) \<and> lf_calls st3 = lf_calls st2))
       \<and> (distinct (param_names (kw_lf kw)) \<longrightarrow>
            length (lf_calls st) \<le> length (lf_calls st0) + card (set pre))"
proof -
  have inv: "cache_inv self st"
    using cache_inv_fresh [OF assms(2)] assms(3) by (rule cache_inv_run)
  have 1: "accepts self x \<and> cache_get (cache st) x = None \<longrightarrow>
            lf_calls st1 = lf_calls st @ [params_of self x] \<and> cache st1 = cache st @ [(x, r)]"
    using memoized_call_effect [OF assms(1,4)] by simp
  note rej = rejected_call_again [OF inv assms(4) _ assms(5)]
  have 2: "\<not> accepts self x \<longrightarrow>
            r = nan_result self \<and> cache st1 = cache st \<and> lf_calls st1 = lf_calls st
            \<and> cache_get (cache st2) x = None"
    using rej by blast
  have 3: "\<exists>st3. objective_call self st2 x' = Inr (r, st3) \<and> lf_calls st3 = lf_calls st2"
    if "key_eq x x'"
    using assms(1) inv assms(4,5) that by (rule later_call_same)
  have 4: "\<not> accepts self x \<longrightarrow>
            (\<exists>st3. objective_call self st2 x = Inr (r, st3) \<and> lf_calls st3 = lf_calls st2
                \<and> cache st3 = cache st2)"
    using rej by blast
  have nn: "\<not> list_ex isnan y" if "distinct (param_names (kw_lf kw))" "accepts self y" for y
    using fresh_names [OF assms(2) that(1)] that(2) by (rule accepts_no_nan)
  have 5: "\<exists>st3. objective_call self st2 x = Inr (r, st3) \<and> lf_calls st3 = lf_calls st2"
    if d: "distinct (param_names (kw_lf kw))"
  proof (cases "accepts self x")
    case True
    with nn [OF d] have "key_eq x x" by (simp add: key_eq_refl)
    with assms(1) inv assms(4,5) show ?thesis by (rule later_call_same)
  next
    case False
    with 4 show ?thesis by blast
  qed
  have 6: "length (lf_calls st) \<le> length (lf_calls st0) + card (set pre)"
    if d: "distinct (param_names (kw_lf kw))"
  proof -
    have "cached_keys st0 = {}"
      by (simp add: cached_keys_def fresh_instance_fields [OF assms(2)])
    with invocations_bounded [OF assms(1) nn [OF d] assms(3)] show ?thesis by simp
  qed
  from 1 2 3 4 5 6 show ?thesis by blast
qed

theorem memoized_calls_witness:
  "memoize ex_self \<and> fresh_instance ex_kw ex_self ex_st0
   \<and> distinct (param_names (kw_lf ex_kw))
   \<and> run_calls ex_self ex_st0 [[Fin 1, Fin (- 1)]] = Inr ([nan_result ex_self], ex_m0)
   \<and> objective_call ex_self ex_m0 [Fin 1, Fin 2]
        = Inr (\<lparr>res_fun = Fin 10, res_grad = [Fin 1, Fin 2]\<rparr>, ex_m1)
   \<and> run_calls ex_self ex_m1 [[NaN, Fin 2]] = Inr ([nan_result ex_self], ex_m2)
   \<and> key_eq [Fin 1, Fin 2] [Fin 1, Fin 2]
   \<and> accepts ex_self [Fin 1, Fin 2] \<and> cache_get (cache ex_m0) [Fin 1, Fin 2] = None
   \<and> lf_calls ex_m1 = lf_calls ex_m0 @ [params_of ex_self [Fin 1, Fin 2]]
   \<and> cache ex_m1
        = cache ex_m0 @ [([Fin 1, Fin 2], \<lparr>res_fun = Fin 10, res_grad = [Fin 1, Fin 2]\<rparr>)]
   \<and> (\<exists>st3. objective_call ex_self ex_m2 [Fin 1, Fin 2]
               = Inr (\<lparr>res_fun = Fin 10, res_grad = [Fin 1, Fin 2]\<rparr>, st3)
            \<and> lf_calls st3 = lf_calls ex_m2)
   \<and> length (lf_calls ex_m0) \<le> length (lf_calls ex_st0) + card (set [[Fin 1, Fin (- 1)]])
   \<and> run_calls ex_self ex_st0 [[Fin 1, Fin (- 1)], [Fin 1, Fin 2]]
        = Inr ([nan_result ex_self, \<lparr>res_fun = Fin 10, res_grad = [Fin 1, Fin 2]\<rparr>], ex_m1)
   \<and> objective_call ex_self ex_m1 [NaN, Fin 2] = Inr (nan_result ex_self, ex_m2)
   \<and> run_calls ex_self ex_m2 [[Fin 1, Fin 2]]
        = Inr ([\<lparr>res_fun = Fin 10, res_grad = [Fin 1, Fin 2]\<rparr>], ex_m2)
   \<and> \<not> accepts ex_self [NaN, Fin 2]
   \<and> cache ex_m2 = cache ex_m1 \<and> lf_calls ex_m2 = lf_calls ex_m1
   \<and> cache_get (cache ex_m2) [NaN, Fin 2] = None
   \<and> (\<exists>st3. objective_call ex_self ex_m2 [NaN, Fin 2] = Inr (nan_result ex_self, st3)
            \<and> lf_calls st3 = lf_calls ex_m2 \<and> cache st3 = cache ex_m2)"
proof -
  have h1: "memoize ex_self" by (simp add: ex_fields)
  have d: "distinct (param_names (kw_lf ex_kw))"
    by (simp add: ex_kw_def default_kwargs_def ex_lf_def)
  have k: "key_eq [Fin 1, Fin 2] [Fin 1, Fin 2]" by (simp add: key_eq_def feq_def)
  have a: "accepts ex_self [Fin 1, Fin 2]"
    by (simp add: accepts_def eval_simps ex_fields)
  have m: "cache_get (cache ex_m0) [Fin 1, Fin 2] = None" by (simp add: ex_m0_eq)
  have na: "\<not> accepts ex_self [NaN, Fin 2]"
    by (simp add: accepts_def eval_simps ex_fields)
  note t1 = memoized_calls [OF h1 ex_fresh ex_m_runs(1) ex_m_runs(2) ex_m_runs(3),
      of "[Fin 1, Fin 2]"]
  note t2 = memoized_calls [OF h1 ex_fresh ex_m_runs(4) ex_m_runs(5) ex_m_runs(6),
      of "[NaN, Fin 2]"]
  from t1 a m k d have
    p1: "lf_calls ex_m1 = lf_calls ex_m0 @ [params_of ex_self [Fin 1, Fin 2]]"
    and p2: "cache ex_m1
        = cache ex_m0 @ [([Fin 1, Fin 2], \<lparr>res_fun = Fin 10, res_grad = [Fin 1, Fin 2]\<rparr>)]"
    and p3: "\<exists>st3. objective_call ex_self ex_m2 [Fin 1, Fin 2]
               = Inr (\<lparr>res_fun = Fin 10, res_grad = [Fin 1, Fin 2]\<rparr>, st3)
            \<and> lf_calls st3 = lf_calls ex_m2"
    and p4: "length (lf_calls ex_m0) \<le> length (lf_calls ex_st0) + card (set [[Fin 1, Fin (- 1)]])"
    by blast+
  from t2 na have
    q1: "cache ex_m2 = cache ex_m1" and q2: "lf_calls ex_m2 = lf_calls ex_m1"
    and q3: "cache_get (cache ex_m2) [NaN, Fin 2] = None"
    and q4: "\<exists>st3. objective_call ex_self ex_m2 [NaN, Fin 2] = Inr (nan_result ex_self, st3)
            \<and> lf_calls st3 = lf_calls ex_m2 \<and> cache st3 = cache ex_m2"
    by blast+
  show ?thesis
    using h1 ex_fresh d ex_m_runs k a m na p1 p2 p3 p4 q1 q2 q3 q4 by blast
qed

text \<open>
  Claim C3.  For a mapping whose keys are exactly the fitted-parameter names,
  \<^verbatim>\<open>_dict_to_array\<close> returns a vector with one component for each name, in the order
  of \<^verbatim>\<open>arg_names\<close>, and \<^verbatim>\<open>_array_to_dict\<close> of that vector is a mapping equal to the
  original (same keys, same value at every key).  \<^verbatim>\<open>_array_to_dict\<close> fails its
  assertion exactly when the length of the vector is not the number of names.
\<close>

theorem codec_round_trip:
  assumes "set (keys m) = set (arg_names self)"
  shows "(\<exists>v d. dict_to_array self m = Inr v
            \<and> length v = length (arg_names self)
            \<and> (\<forall>i < length (arg_names self). map_of m (arg_names self ! i) = Some (v ! i))
            \<and> array_to_dict self v = Inr d
            \<and> map_of d = map_of m \<and> set (keys d) = set (keys m))
       \<and> ((array_to_dict self x = Inl AssertionError) = (length x \<noteq> length (arg_names self)))
       \<and> ((\<exists>d. array_to_dict self x = Inr d) = (length x = length (arg_names self)))"
proof -
  let ?names = "arg_names self"
  let ?f = "\<lambda>k. the (map_of m k)"
  let ?v = "map ?f ?names"
  let ?d = "dict_of (zip ?names ?v)"
  from assms have sub: "set ?names \<subseteq> set (keys m)" by simp
  then have v: "dict_to_array self m = Inr ?v"
    by (simp add: dict_to_array_def lookup_all_Inr)
  have some: "map_of m k = Some (?f k)" if "k \<in> set ?names" for k
  proof -
    from that assms have "k \<in> fst ` set m" by (simp add: keys_def)
    then obtain y where "map_of m k = Some y"
      by (metis domD dom_map_of_conv_image_fst)
    then show ?thesis by simp
  qed
  have none: "map_of m k = None" if "k \<notin> set ?names" for k
    using that assms by (simp add: map_of_eq_None_iff keys_def)
  have idx: "\<forall>i < length ?names. map_of m (?names ! i) = Some (?v ! i)"
    using some by simp
  have d: "array_to_dict self ?v = Inr ?d"
    by (simp add: array_to_dict_def)
  have "map_of ?d k = map_of m k" for k
    using some [of k] none [of k] by (simp add: map_of_dict_of map_of_zip_same)
  then have eq: "map_of ?d = map_of m" by (rule ext)
  have ks: "set (keys ?d) = set (keys m)"
    using assms by (simp add: keys_dict_of_zip)
  from v idx d eq ks
  have 1: "\<exists>v d. dict_to_array self m = Inr v
            \<and> length v = length (arg_names self)
            \<and> (\<forall>i < length (arg_names self). map_of m (arg_names self ! i) = Some (v ! i))
            \<and> array_to_dict self v = Inr d
            \<and> map_of d = map_of m \<and> set (keys d) = set (keys m)"
    by (intro exI [of _ ?v] exI [of _ ?d]) simp
  have 2: "(array_to_dict self x = Inl AssertionError) = (length x \<noteq> length (arg_names self))"
    by (simp add: array_to_dict_def)
  have 3: "(\<exists>d. array_to_dict self x = Inr d) = (length x = length (arg_names self))"
    by (simp add: array_to_dict_def)
  from 1 2 3 show ?thesis by blast
qed

theorem codec_round_trip_witness:
  "set (keys [(''s_rate_multiplier'', Fin 7), (''a'', Fin 4)]) = set (arg_names ex_self)
   \<and> dict_to_array ex_self [(''s_rate_multiplier'', Fin 7), (''a'', Fin 4)] = Inr [Fin 4, Fin 7]
   \<and> array_to_dict ex_self [Fin 4, Fin 7] = Inr [(''a'', Fin 4), (''s_rate_multiplier'', Fin 7)]
   \<and> map_of [(''a'', Fin 4), (''s_rate_multiplier'', Fin 7)]
       = map_of [(''s_rate_multiplier'', Fin 7), (''a'', Fin 4)]
   \<and> array_to_dict ex_self [Fin 4] = Inl AssertionError"
proof -
  let ?m = "[(''s_rate_multiplier'', Fin 7), (''a'', Fin 4)]"
  have h: "set (keys ?m) = set (arg_names ex_self)"
    by (auto simp: keys_def ex_fields)
  have v: "dict_to_array ex_self ?m = Inr [Fin 4, Fin 7]"
    by (simp add: dict_to_array_def getitem_def ex_fields)
  have d: "array_to_dict ex_self [Fin 4, Fin 7] = Inr [(''a'', Fin 4), (''s_rate_multiplier'', Fin 7)]"
    by (simp add: array_to_dict_def dict_of_def ex_fields)
  from codec_round_trip [OF h, of "[Fin 4]"] v d
  show ?thesis using h by (auto simp: ex_fields)
qed

text \<open>
  Claim C4.  When the constructor of an interval objective returns and neither
  \<^verbatim>\<open>guess\<close> nor \<^verbatim>\<open>fix\<close> holds the target parameter, with finite \<open>sigma_guess\<close>,
  bestfit value and slope and a critical value \<open>dy \<ge> 0\<close>: the guess stored for the
  target is \<open>max(LOWER_RATE_MULTIPLIER_BOUND, bestfit_tp + direction * min(dx1, dx2))\<close>
  with \<open>dx1 = sqrt(2 dy) |sigma_guess|\<close> and \<open>dx2 = |dy / slope|\<close>, or infinity for a
  zero slope.  For \<open>bestfit_tp = 5\<close>, direction \<open>+1\<close>, \<open>sigma_guess = 2\<close>, slope \<open>0\<close>
  and \<open>dy = 2.7055\<close> the guess is within \<open>0.001\<close> of \<open>9.652\<close>.
\<close>

theorem interval_guess_formula:
  assumes "interval_init cls wilks ia kw = Inr (self, st)"
    and "interval self = Some c"
    and "ia_target_parameter ia \<notin> set (keys (case kw_guess kw of None \<Rightarrow> [] | Some g \<Rightarrow> g))"
    and "ia_target_parameter ia \<notin> set (keys (kw_fixed kw))"
    and "wilks (ia_critical_quantile ia) = Fin dy" and "0 \<le> dy"
    and "sigma_guess c = Fin s" and "bestfit_tp c = Fin b" and "bestfit_tp_slope c = Fin sl"
  shows "map_of (guess self) (ia_target_parameter ia)
       = Some (py_max LOWER_RATE_MULTIPLIER_BOUND
                (fadd (Fin b) (fmul (Fin (of_int (ia_direction ia)))
                   (py_min (Fin (sqrt (2 * dy) * \<bar>s\<bar>))
                           (if sl = 0 then PInf else Fin \<bar>dy / sl\<bar>)))))
     \<and> map_of (guess self) (ia_target_parameter ia)
       = Some (Fin (max (1 / 10 ^ 9)
           (b + of_int (ia_direction ia) *
                (if sl = 0 then sqrt (2 * dy) * \<bar>s\<bar>
                 else min (sqrt (2 * dy) * \<bar>s\<bar>) \<bar>dy / sl\<bar>))))
     \<and> (b = 5 \<and> ia_direction ia = 1 \<and> s = 2 \<and> sl = 0 \<and> dy = 27055 / 10000 \<longrightarrow>
          (\<exists>g. map_of (guess self) (ia_target_parameter ia) = Some (Fin g)
              \<and> \<bar>g - 9652 / 1000\<bar> < 1 / 1000))"
proof -
  let ?t = "ia_target_parameter ia"
  from assms(1) obtain self0 st0 sigma tp m2ll and grad :: "pyfloat list" and slope tp_guess where
    i0: "objective_init cls False kw = Inr (self0, st0)" and
    d: "(case map_of (guess self0) ?t of
        None \<Rightarrow> derive_tp_guess wilks ?t (ia_critical_quantile ia) sigma slope tp (ia_direction ia)
      | Some g \<Rightarrow> Inr g) = Inr tp_guess" and
    s: "self = self0\<lparr>guess := dict_merge (dict_merge (ia_bestfit ia) [(?t, tp_guess)]) (guess self0),
                  absolute_ftol :=
                    fmul (ia_tol_multiplier ia) (fmul (llr_tolerance self0) (llr_tolerance self0)),
                  interval := Some
                    \<lparr>target_parameter = ?t, bestfit = ia_bestfit ia,
                     direction = ia_direction ia,
                     critical_quantile = ia_critical_quantile ia,
                     tol_multiplier = ia_tol_multiplier ia,
                     sigma_guess = sigma,
                     t_ppf_arg = ia_t_ppf ia,
                     t_ppf_grad_arg = ia_t_ppf_grad ia,
                     wilks_crit = wilks,
                     tilt = fmul (fmul (Fin 4) (llr_tolerance self0)) (ia_critical_quantile ia),
                     bestfit_tp = tp,
                     m2ll_best = m2ll, bestfit_tp_slope = slope\<rparr>\<rparr>"
    by (rule interval_init_cases)
  from s assms(2,7,8,9) have v: "sigma = Fin s" "tp = Fin b" "slope = Fin sl"
    by auto
  have g0: "guess self0 = dict_merge (case kw_guess kw of None \<Rightarrow> [] | Some g \<Rightarrow> g) (kw_fixed kw)"
    using i0 by (rule objective_init_fields)
  from assms(3,4) have notin: "?t \<notin> set (keys (guess self0))"
    by (simp add: g0 dict_merge_def keys_fold_update)
  then have "?t \<notin> fst ` set (guess self0)" by (simp add: keys_def)
  then have "map_of (guess self0) ?t = None" by (simp add: map_of_eq_None_iff)
  with d have dv: "derive_tp_guess wilks ?t (ia_critical_quantile ia) (Fin s) (Fin sl) (Fin b)
      (ia_direction ia) = Inr tp_guess"
    by (simp add: v)
  have m: "map_of (guess self) ?t = Some tp_guess"
    using notin by (simp add: s map_of_merge_target)
  have 1: "map_of (guess self) ?t
       = Some (py_max LOWER_RATE_MULTIPLIER_BOUND
                (fadd (Fin b) (fmul (Fin (of_int (ia_direction ia)))
                   (py_min (Fin (sqrt (2 * dy) * \<bar>s\<bar>))
                           (if sl = 0 then PInf else Fin \<bar>dy / sl\<bar>)))))"
    using dv m derive_tp_guess_steps [where wilks = wilks and cq = "ia_critical_quantile ia", OF assms(5,6), of ?t s sl b "ia_direction ia"] by simp
  have 2: "map_of (guess self) ?t
       = Some (Fin (max (1 / 10 ^ 9)
           (b + of_int (ia_direction ia) *
                (if sl = 0 then sqrt (2 * dy) * \<bar>s\<bar>
                 else min (sqrt (2 * dy) * \<bar>s\<bar>) \<bar>dy / sl\<bar>))))"
    using dv m derive_tp_guess_finite [where wilks = wilks and cq = "ia_critical_quantile ia", OF assms(5,6), of ?t s sl b "ia_direction ia"] by simp
  have 3: "\<exists>g. map_of (guess self) ?t = Some (Fin g) \<and> \<bar>g - 9652 / 1000\<bar> < 1 / 1000"
    if "b = 5 \<and> ia_direction ia = 1 \<and> s = 2 \<and> sl = 0 \<and> dy = 27055 / 10000"
    using 2 that sqrt_example by simp
  from 1 2 3 show ?thesis by blast
qed

theorem interval_guess_formula_witness:
  "interval_init Scipy ex_wilks ex_ia (default_kwargs ex_lf_iv) = Inr (ex_iv, ex_iv_st0)
   \<and> interval ex_iv = Some ex_iv_ctx
   \<and> ia_target_parameter ex_ia \<notin> set (keys (case kw_guess (default_kwargs ex_lf_iv) of
                                               None \<Rightarrow> [] | Some g \<Rightarrow> g))
   \<and> ia_target_parameter ex_ia \<notin> set (keys (kw_fixed (default_kwargs ex_lf_iv)))
   \<and> ex_wilks (ia_critical_quantile ex_ia) = Fin (27055 / 10000) \<and> (0 :: real) \<le> 27055 / 10000
   \<and> sigma_guess ex_iv_ctx = Fin 2 \<and> bestfit_tp ex_iv_ctx = Fin 5
   \<and> bestfit_tp_slope ex_iv_ctx = Fin 0 \<and> ia_direction ex_ia = 1
   \<and> (\<exists>g. map_of (guess ex_iv) ''t'' = Some (Fin g) \<and> \<bar>g - 9652 / 1000\<bar> < 1 / 1000)"
proof -
  have h3: "ia_target_parameter ex_ia \<notin> set (keys (case kw_guess (default_kwargs ex_lf_iv) of
                                               None \<Rightarrow> [] | Some g \<Rightarrow> g))"
    and h4: "ia_target_parameter ex_ia \<notin> set (keys (kw_fixed (default_kwargs ex_lf_iv)))"
    by (simp_all add: default_kwargs_def keys_def kw_fixed_def)
  have h5: "ex_wilks (ia_critical_quantile ex_ia) = Fin (27055 / 10000)"
    by (simp add: ex_wilks_def)
  have h6: "(0 :: real) \<le> 27055 / 10000" by simp
  have t: "ia_target_parameter ex_ia = ''t''" and dir: "ia_direction ex_ia = 1"
    by (simp_all add: ex_ia_def)
  note th = interval_guess_formula [OF ex_iv_init ex_iv_fields(1) h3 h4 h5 h6
      ex_iv_fields(2) ex_iv_fields(3) ex_iv_fields(4)]
  from th [THEN conjunct2, THEN conjunct2] dir
  have "\<exists>g. map_of (guess ex_iv) ''t'' = Some (Fin g) \<and> \<bar>g - 9652 / 1000\<bar> < 1 / 1000"
    by (simp add: t)
  then show ?thesis
    using ex_iv_init ex_iv_fields(1-4) h3 h4 h5 h6 dir by simp
qed

text \<open>
  Claim C5.  For an interval objective, at parameters where the target has the finite
  value \<open>x\<close>, with finite likelihood value \<open>f\<close> and gradient \<open>gs\<close>, finite critical
  value \<open>tp\<close> and derivative \<open>tg\<close>, and a nonzero finite \<open>sigma_guess\<close>: with
  \<open>diff = (f - m2ll_best) - tp\<close>, \<open>x_norm = (x - bestfit_tp) / sigma_guess\<close> and
  \<open>tilt = 4 * llr_tolerance * critical_quantile\<close>, the value returned is
  \<open>diff\<^sup>2 - direction * tilt * x_norm + 1\<close> and the gradient is \<open>2 * diff * (g - tg)\<close> in
  every component, with \<open>- direction * tilt / sigma_guess\<close> added in the component of
  the target parameter only.  \<^verbatim>\<open>absolute_to_relative_tol(t)\<close> is \<open>t / offset = t\<close>.
\<close>

theorem interval_objective_value:
  assumes "interval_init cls wilks ia kw = Inr (self, st0)"
    and "interval self = Some c"
    and "map_of ps (target_parameter c) = Some (Fin x)"
    and "sigma_guess c = Fin s" and "s \<noteq> 0"
    and "bestfit_tp c = Fin b" and "m2ll_best c = Fin m"
    and "minus_ll (lf self) (length (lf_calls st)) ps (keys (fixed self)) = (Fin f, map Fin gs)"
    and "t_ppf c (Fin x) = Fin tp" and "t_ppf_grad c (Fin x) = Inr (Fin tg)"
    and "kw_llr_tolerance kw = Fin tol" and "ia_critical_quantile ia = Fin q"
    and "list_index (arg_names self) (target_parameter c) = Inr i" and "i < length gs"
  shows "(let diff = (f - m) - tp; x_norm = (x - b) / s; tlt = 4 * tol * q;
              d = of_int (ia_direction ia)
          in inner_fun_and_grad self st ps =
               Inr ((Fin (diff\<^sup>2 - d * tlt * x_norm + 1),
                     map Fin ((map (\<lambda>g. 2 * diff * (g - tg)) gs)
                                [i := 2 * diff * (gs ! i - tg) - d * tlt / s])),
                    st\<lparr>lf_calls := lf_calls st @ [ps]\<rparr>))
       \<and> tilt c = Fin (4 * tol * q)
       \<and> absolute_to_relative_tol t = truediv t offset
       \<and> absolute_to_relative_tol t = Inr t"
proof -
  from assms(1) obtain self0 st0' sigma tp0 m2ll and grad :: "pyfloat list" and slope tp_guess where
    i0: "objective_init cls False kw = Inr (self0, st0')" and
    s: "self = self0\<lparr>guess := dict_merge (dict_merge (ia_bestfit ia)
                                [(ia_target_parameter ia, tp_guess)]) (guess self0),
                  absolute_ftol :=
                    fmul (ia_tol_multiplier ia) (fmul (llr_tolerance self0) (llr_tolerance self0)),
                  interval := Some
                    \<lparr>target_parameter = ia_target_parameter ia, bestfit = ia_bestfit ia,
                     direction = ia_direction ia,
                     critical_quantile = ia_critical_quantile ia,
                     tol_multiplier = ia_tol_multiplier ia,
                     sigma_guess = sigma,
                     t_ppf_arg = ia_t_ppf ia,
                     t_ppf_grad_arg = ia_t_ppf_grad ia,
                     wilks_crit = wilks,
                     tilt = fmul (fmul (Fin 4) (llr_tolerance self0)) (ia_critical_quantile ia),
                     bestfit_tp = tp0,
                     m2ll_best = m2ll, bestfit_tp_slope = slope\<rparr>\<rparr>"
    by (rule interval_init_cases)
  have llr: "llr_tolerance self0 = kw_llr_tolerance kw"
    using i0 by (rule objective_init_fields)
  from s assms(2) have tl: "tilt c = Fin (4 * tol * q)" and dir: "direction c = ia_direction ia"
    by (auto simp: llr assms(11,12))
  have "interval_inner_fun_and_grad self c st ps =
     Inr ((Fin (((f - m) - tp)\<^sup>2 - of_int (direction c) * (4 * tol * q) * ((x - b) / s) + 1),
           map Fin ((map (\<lambda>g. 2 * ((f - m) - tp) * (g - tg)) gs)
                      [i := 2 * ((f - m) - tp) * (gs ! i - tg)
                              - of_int (direction c) * (4 * tol * q) / s])),
          st\<lparr>lf_calls := lf_calls st @ [ps]\<rparr>)"
    using assms(3-10) tl assms(13,14) by (rule interval_inner_finite)
  then have 1: "let diff = (f - m) - tp; x_norm = (x - b) / s; tlt = 4 * tol * q;
              d = of_int (ia_direction ia)
          in inner_fun_and_grad self st ps =
               Inr ((Fin (diff\<^sup>2 - d * tlt * x_norm + 1),
                     map Fin ((map (\<lambda>g. 2 * diff * (g - tg)) gs)
                                [i := 2 * diff * (gs ! i - tg) - d * tlt / s])),
                    st\<lparr>lf_calls := lf_calls st @ [ps]\<rparr>)"
    by (simp add: inner_fun_and_grad_def assms(2) dir Let_def)
  have "absolute_to_relative_tol t = truediv t offset"
    by (simp add: absolute_to_relative_tol_def)
  with 1 tl show ?thesis
    by (simp add: absolute_to_relative_tol_id)
qed

theorem interval_objective_value_witness:
  "interval_init Scipy ex_wilks ex_ia (default_kwargs ex_lf_iv) = Inr (ex_iv, ex_iv_st0)
   \<and> interval ex_iv = Some ex_iv_ctx
   \<and> map_of [(''t'', Fin 7), (''s'', Fin 1)] (target_parameter ex_iv_ctx) = Some (Fin 7)
   \<and> sigma_guess ex_iv_ctx = Fin 2 \<and> (2 :: real) \<noteq> 0
   \<and> bestfit_tp ex_iv_ctx = Fin 5 \<and> m2ll_best ex_iv_ctx = Fin 10
   \<and> minus_ll (lf ex_iv) (length (lf_calls ex_iv_st0)) [(''t'', Fin 7), (''s'', Fin 1)]
        (keys (fixed ex_iv)) = (Fin 11, map Fin [0, 1])
   \<and> t_ppf ex_iv_ctx (Fin 7) = Fin (27055 / 10000)
   \<and> t_ppf_grad ex_iv_ctx (Fin 7) = Inr (Fin 0)
   \<and> kw_llr_tolerance (default_kwargs ex_lf_iv) = Fin (5 / 100)
   \<and> ia_critical_quantile ex_ia = Fin (9 / 10)
   \<and> list_index (arg_names ex_iv) (target_parameter ex_iv_ctx) = Inr 0
   \<and> (0 :: nat) < length [0 :: real, 1]
   \<and> inner_fun_and_grad ex_iv ex_iv_st0 [(''t'', Fin 7), (''s'', Fin 1)]
       = Inr ((Fin ((11 - 10 - 27055 / 10000)\<^sup>2 - 18 / 100 + 1),
               [Fin (- (9 / 100)), Fin (- (3411 / 1000))]),
              ex_iv_st0\<lparr>lf_calls := lf_calls ex_iv_st0 @ [[(''t'', Fin 7), (''s'', Fin 1)]]\<rparr>)
   \<and> tilt ex_iv_ctx = Fin (18 / 100)
   \<and> absolute_to_relative_tol (Fin (5 / 100)) = Inr (Fin (5 / 100))"
proof -
  let ?ps = "[(''t'', Fin 7), (''s'', Fin 1)]"
  have h3: "map_of ?ps (target_parameter ex_iv_ctx) = Some (Fin 7)"
    by (simp add: ex_iv_fields)
  have h5: "(2 :: real) \<noteq> 0" by simp
  have h8: "minus_ll (lf ex_iv) (length (lf_calls ex_iv_st0)) ?ps (keys (fixed ex_iv))
      = (Fin 11, map Fin [0, 1])"
    by (simp add: ex_iv_fields ex_lf_iv_def)
  have h9: "t_ppf ex_iv_ctx (Fin 7) = Fin (27055 / 10000)"
    by (simp add: t_ppf_def ex_iv_fields ex_wilks_def)
  have h10: "t_ppf_grad ex_iv_ctx (Fin 7) = Inr (Fin 0)"
    by (simp add: t_ppf_grad_def ex_iv_fields)
  have h11: "kw_llr_tolerance (default_kwargs ex_lf_iv) = Fin (5 / 100)"
    by (simp add: default_kwargs_def)
  have h12: "ia_critical_quantile ex_ia = Fin (9 / 10)" and dir: "ia_direction ex_ia = 1"
    by (simp_all add: ex_ia_def)
  have h13: "list_index (arg_names ex_iv) (target_parameter ex_iv_ctx) = Inr 0"
    by (simp add: ex_iv_fields)
  have h14: "(0 :: nat) < length [0 :: real, 1]" by simp
  note th = interval_objective_value [OF ex_iv_init ex_iv_fields(1) h3 ex_iv_fields(2) h5
      ex_iv_fields(3) ex_iv_fields(5) h8 h9 h10 h11 h12 h13 h14, of "Fin (5 / 100)"]
  from th [THEN conjunct1] have v: "inner_fun_and_grad ex_iv ex_iv_st0 ?ps
       = Inr ((Fin ((11 - 10 - 27055 / 10000)\<^sup>2 - 18 / 100 + 1),
               [Fin (- (9 / 100)), Fin (- (3411 / 1000))]),
              ex_iv_st0\<lparr>lf_calls := lf_calls ex_iv_st0 @ [?ps]\<rparr>)"
    by (simp add: Let_def dir power2_eq_square)
  from th [THEN conjunct2, THEN conjunct1]
  have tl: "tilt ex_iv_ctx = Fin (18 / 100)" by simp
  note ar = th [THEN conjunct2, THEN conjunct2, THEN conjunct2]
  show ?thesis
    using v tl ar ex_iv_init ex_iv_fields(1,2,3,5) h3 h5 h8 h9 h10 h11 h12 h13 h14 by simp
qed

text \<open>
  Claim C6.  On an instance with neither shortcut, whose \<^verbatim>\<open>fix\<close> is a well-formed
  dict, in any state: when the optimizer has run and \<^verbatim>\<open>parse_result\<close> has returned the
  estimate \<open>est\<close>, \<^verbatim>\<open>minimize\<close> returns a mapping that holds every fixed parameter with
  its fixed value and every fitted parameter with its value in \<open>est\<close>, and nothing else;
  for every entry of \<open>est\<close> that equals its guess a warning has been emitted, and the
  mapping is returned all the same.  The value of the \<open>i\<close>-th fitted parameter is the
  \<open>i\<close>-th component of scipy's \<^verbatim>\<open>x\<close> or of TensorFlow's \<^verbatim>\<open>position\<close>, when that
  vector has one component for each fitted parameter and the names are distinct; with
  Minuit it is the entry of \<^verbatim>\<open>fitarg\<close> under the parameter's name.
\<close>

theorem minimize_merges_fixed:
  assumes "fresh_instance kw self st0"
    and "\<not> get_lowlevel_result self" and "\<not> return_history self"
    and "distinct (keys (fixed self))"
    and "minimize_backend self st run = Inr (raw, st1)"
    and "parse_result self st1 raw = Inr ((est, llval), st2)"
  shows "\<exists>d st3. minimize self st run = Inr (Estimate d, st3)
     \<and> raw = outcome run
     \<and> (\<forall>(k, v) \<in> set (fixed self). map_of d k = Some v)
     \<and> (\<forall>k \<in> set (arg_names self). map_of d k = map_of est k)
     \<and> set (keys d) = set (keys est) \<union> set (keys (fixed self))
     \<and> (\<forall>(k, v) \<in> set est. \<forall>g. map_of (guess self) k = Some g \<and> feq g v
           \<longrightarrow> EqualToGuess k v \<in> set (warnings st3))
     \<and> (\<forall>r. raw = ScipyRaw r \<and> length (sx r) = length (arg_names self)
               \<and> distinct (param_names (kw_lf kw))
           \<longrightarrow> (\<forall>i < length (arg_names self). map_of d (arg_names self ! i) = Some (sx r ! i)))
     \<and> (\<forall>t. raw = TfpRaw t \<and> length (position t) = length (arg_names self)
               \<and> distinct (param_names (kw_lf kw))
           \<longrightarrow> (\<forall>i < length (arg_names self).
                  map_of d (arg_names self ! i) = Some (position t ! i)))
     \<and> (\<forall>f. raw = MinuitRaw f
           \<longrightarrow> (\<forall>k \<in> set (arg_names self).
                  \<exists>v. map_of (fitarg f) k = Some v \<and> map_of d k = Some v))"
proof -
  have "set (keys est) \<subseteq> set (keys (guess self))"
    using parse_result_keys [OF assms(6)] minimize_backend_guess(1) [OF assms(5)] by blast
  from compare_with_guess_total [OF this, of st2] obtain st3 where
    c: "compare_with_guess self st2 est = Inr st3" and
    w: "\<forall>(k, v) \<in> set est. \<forall>g. map_of (guess self) k = Some g \<and> feq g v
           \<longrightarrow> EqualToGuess k v \<in> set (warnings st3)"
    by blast
  let ?d = "dict_merge est (fixed self)"
  let ?names = "arg_names self"
  have m: "minimize self st run = Inr (Estimate ?d, st3)"
    using assms(2,3,5,6) c by (simp add: minimize_def)
  have mo: "map_of ?d = map_of est ++ map_of (fixed self)"
    using assms(4) by (rule map_of_dict_merge)
  have fx: "\<forall>(k, v) \<in> set (fixed self). map_of ?d k = Some v"
    using assms(4) by (auto simp: mo keys_def map_add_def)
  have disj: "set ?names \<inter> set (keys (fixed self)) = {}"
    by (auto simp: fresh_instance_fields [OF assms(1)])
  have fit: "\<forall>k \<in> set ?names. map_of ?d k = map_of est k"
  proof
    fix k assume "k \<in> set ?names"
    with disj have "k \<notin> fst ` set (fixed self)" by (auto simp: keys_def)
    then have "map_of (fixed self) k = None" by (simp add: map_of_eq_None_iff)
    then show "map_of ?d k = map_of est k" by (simp add: mo map_add_def)
  qed
  have ks: "set (keys ?d) = set (keys est) \<union> set (keys (fixed self))"
    by (simp add: dict_merge_def keys_fold_update)
  have vec: "\<forall>i < length ?names. map_of ?d (?names ! i) = Some (xs ! i)"
    if "est = dict_of (zip ?names xs)" "length xs = length ?names"
      "distinct (param_names (kw_lf kw))" for xs
  proof (intro allI impI)
    fix i assume i: "i < length ?names"
    from fresh_names(1) [OF assms(1) that(3)] have "distinct ?names" .
    then have "map_of est (?names ! i) = Some (xs ! i)"
      using that(1,2) i by (simp add: dict_of_zip_nth)
    with fit i show "map_of ?d (?names ! i) = Some (xs ! i)" by simp
  qed
  have s: "\<forall>r. raw = ScipyRaw r \<and> length (sx r) = length ?names
               \<and> distinct (param_names (kw_lf kw))
           \<longrightarrow> (\<forall>i < length ?names. map_of ?d (?names ! i) = Some (sx r ! i))"
    using vec scipy_parse_est assms(6) by blast
  have t: "\<forall>t. raw = TfpRaw t \<and> length (position t) = length ?names
               \<and> distinct (param_names (kw_lf kw))
           \<longrightarrow> (\<forall>i < length ?names. map_of ?d (?names ! i) = Some (position t ! i))"
    using vec tfp_parse_est assms(6) by blast
  have mi: "\<forall>f. raw = MinuitRaw f
           \<longrightarrow> (\<forall>k \<in> set ?names. \<exists>v. map_of (fitarg f) k = Some v \<and> map_of ?d k = Some v)"
  proof (intro allI impI ballI)
    fix f k assume f: "raw = MinuitRaw f" and k: "k \<in> set ?names"
    from assms(6) f have p: "parse_result self st1 (MinuitRaw f) = Inr ((est, llval), st2)"
      by simp
    from minuit_parse_est(1) [OF p] k have "k \<in> fst ` set (fitarg f)"
      by (auto simp: keys_def)
    then obtain v where v: "map_of (fitarg f) k = Some v"
      by (metis domD dom_map_of_conv_image_fst)
    have "map_of est k = Some v"
      using k v by (simp add: minuit_parse_est(2) [OF p] map_of_dict_of map_of_zip_same)
    with fit k v show "\<exists>v. map_of (fitarg f) k = Some v \<and> map_of ?d k = Some v" by simp
  qed
  from m fx fit ks w minimize_backend_guess(2) [OF assms(5)] s t mi
  show ?thesis by (intro exI [of _ ?d] exI [of _ st3]) blast
qed

theorem minimize_merges_fixed_witness:
  "fresh_instance ex_kw ex_self ex_st0
   \<and> \<not> get_lowlevel_result ex_self \<and> \<not> return_history ex_self
   \<and> distinct (keys (fixed ex_self))
   \<and> minimize_backend ex_self ex_st0 ex_run = Inr (outcome ex_run, ex_st1)
   \<and> parse_result ex_self ex_st1 (outcome ex_run)
       = Inr (([(''a'', Fin 4), (''s_rate_multiplier'', Fin 2)], Fin 10), ex_st1)
   \<and> outcome ex_run = ScipyRaw \<lparr>success = True, status = 0, message = ''ok'',
                                 sx = [Fin 4, Fin 2], sfun = Fin 10\<rparr>
   \<and> length [Fin 4, Fin 2] = length (arg_names ex_self)
   \<and> distinct (param_names (kw_lf ex_kw))
   \<and> minimize ex_self ex_st0 ex_run
       = Inr (Estimate [(''a'', Fin 4), (''s_rate_multiplier'', Fin 2), (''b'', Fin 3)],
              warn (EqualToGuess ''a'' (Fin 4)) ex_st1)
   \<and> map_of [(''a'', Fin 4), (''s_rate_multiplier'', Fin 2), (''b'', Fin 3)]
        (arg_names ex_self ! 0) = Some ([Fin 4, Fin 2] ! 0)
   \<and> map_of [(''a'', Fin 4), (''s_rate_multiplier'', Fin 2), (''b'', Fin 3)]
        (arg_names ex_self ! 1) = Some ([Fin 4, Fin 2] ! 1)
   \<and> map_of [(''a'', Fin 4), (''s_rate_multiplier'', Fin 2), (''b'', Fin 3)] ''b''
        = Some (Fin 3)"
proof -
  let ?r = "\<lparr>success = True, status = 0, message = ''ok'',
             sx = [Fin 4, Fin 2], sfun = Fin 10\<rparr>"
  let ?d = "[(''a'', Fin 4), (''s_rate_multiplier'', Fin 2), (''b'', Fin 3)]"
  have h2: "\<not> get_lowlevel_result ex_self" and h3: "\<not> return_history ex_self"
    and h4: "distinct (keys (fixed ex_self))"
    by (simp_all add: ex_fields ex_fields2 keys_def)
  have h5: "minimize_backend ex_self ex_st0 ex_run = Inr (outcome ex_run, ex_st1)"
    using ex_run1(1)
    by (simp add: minimize_backend_def ex_fields ex_fields2 ex_run_def dict_to_array_def
        getitem_def)
  have h6: "parse_result ex_self ex_st1 (outcome ex_run)
       = Inr (([(''a'', Fin 4), (''s_rate_multiplier'', Fin 2)], Fin 10), ex_st1)"
    by (simp add: parse_result_def scipy_parse_result_def ex_fields ex_fields2 ex_run_def
        dict_of_def)
  have o: "outcome ex_run = ScipyRaw ?r" by (simp add: ex_run_def)
  have l: "length [Fin 4, Fin 2] = length (arg_names ex_self)" by (simp add: ex_fields)
  have d: "distinct (param_names (kw_lf ex_kw))"
    by (simp add: ex_kw_def default_kwargs_def ex_lf_def)
  have e: "minimize ex_self ex_st0 ex_run
       = Inr (Estimate ?d, warn (EqualToGuess ''a'' (Fin 4)) ex_st1)"
    using h5 h6
    by (simp add: minimize_def ex_fields ex_fields2 getitem_def feq_def dict_merge_def)
  from minimize_merges_fixed [OF ex_fresh h2 h3 h4 h5 h6] obtain d' st3 where
    m: "minimize ex_self ex_st0 ex_run = Inr (Estimate d', st3)" and
    fx: "\<forall>(k, v) \<in> set (fixed ex_self). map_of d' k = Some v" and
    sc: "\<forall>r. outcome ex_run = ScipyRaw r \<and> length (sx r) = length (arg_names ex_self)
               \<and> distinct (param_names (kw_lf ex_kw))
           \<longrightarrow> (\<forall>i < length (arg_names ex_self).
                  map_of d' (arg_names ex_self ! i) = Some (sx r ! i))"
    by blast
  from m e have dd: "d' = ?d" by simp
  from sc o l d have n: "\<forall>i < length (arg_names ex_self).
      map_of ?d (arg_names ex_self ! i) = Some ([Fin 4, Fin 2] ! i)"
    unfolding dd by fastforce
  have i0: "0 < length (arg_names ex_self)" and i1: "1 < length (arg_names ex_self)"
    by (simp_all add: ex_fields)
  from n i0 have n0: "map_of ?d (arg_names ex_self ! 0) = Some ([Fin 4, Fin 2] ! 0)"
    by blast
  from n i1 have n1: "map_of ?d (arg_names ex_self ! 1) = Some ([Fin 4, Fin 2] ! 1)"
    by blast
  from fx have b: "map_of ?d ''b'' = Some (Fin 3)"
    unfolding dd by (simp add: ex_fields)
  show ?thesis
    using ex_fresh h2 h3 h4 h5 h6 o l d e n0 n1 b by blast
qed

text \<open>
  Claim C7.  \<^verbatim>\<open>fail\<close> raises OptimizerFailure when \<^verbatim>\<open>allow_failure\<close> is false and
  only emits a warning when it is true.  So, for each of the three optimizers, when the
  raw result reports that the fit did not converge, \<^verbatim>\<open>parse_result\<close> raises exactly
  when \<^verbatim>\<open>allow_failure\<close> is false, and otherwise returns the parsed estimate and value
  after the warning.  (Minuit's \<^verbatim>\<open>fitarg\<close> holds every fitted name.)
\<close>

theorem failure_policy:
  "fail self st m =
     (if allow_failure self then Inr (warn (FailureDemoted m) st) else Inl (OptimizerFailure m))
   \<and> (backend self = Scipy \<and> \<not> success r \<longrightarrow>
        parse_result self st (ScipyRaw r) =
          (if allow_failure self
           then Inr ((dict_of (zip (arg_names self) (sx r)), sfun r),
                     warn (FailureDemoted (ScipyFailed (status r) (message r))) st)
           else Inl (OptimizerFailure (ScipyFailed (status r) (message r)))))
   \<and> (backend self = TFP \<and> failed t \<longrightarrow>
        parse_result self st (TfpRaw t) =
          (if allow_failure self
           then Inr ((dict_of (zip (arg_names self) (position t)), objective_value t),
                     warn (FailureDemoted TfpFailed) st)
           else Inl (OptimizerFailure TfpFailed)))
   \<and> (backend self = Minuit \<and> \<not> migrad_ok f \<and> set (arg_names self) \<subseteq> set (keys (fitarg f)) \<longrightarrow>
        parse_result self st (MinuitRaw f) =
          (if allow_failure self
           then Inr ((dict_of (zip (arg_names self)
                         (map (\<lambda>k. the (map_of (fitarg f) k)) (arg_names self))), fval f),
                     warn (FailureDemoted
                             (MigradFailed (has_reached_call_limit f) (is_above_max_edm f))) st)
           else Inl (OptimizerFailure
                       (MigradFailed (has_reached_call_limit f) (is_above_max_edm f)))))"
  by (simp add: fail_def parse_result_def scipy_parse_result_def tfp_parse_result_def
      minuit_parse_result_def lookup_all_Inr)

theorem failure_policy_witness:
  "backend ex_self = Scipy \<and> \<not> success ex_scipy_failed \<and> \<not> allow_failure ex_self
   \<and> parse_result ex_self ex_st0 (ScipyRaw ex_scipy_failed)
       = Inl (OptimizerFailure (ScipyFailed 1 ''limit''))
   \<and> backend ex_af = Scipy \<and> allow_failure ex_af
   \<and> parse_result ex_af ex_st0 (ScipyRaw ex_scipy_failed)
       = Inr (([(''a'', Fin 4), (''s_rate_multiplier'', Fin 2)], Fin 12),
              warn (FailureDemoted (ScipyFailed 1 ''limit'')) ex_st0)"
proof -
  have a: "backend ex_self = Scipy \<and> \<not> success ex_scipy_failed"
    and b: "backend ex_af = Scipy \<and> \<not> success ex_scipy_failed"
    by (simp_all add: ex_fields2 ex_af_fields ex_scipy_failed_def)
  from failure_policy [of ex_self ex_st0 TfpFailed ex_scipy_failed]
       failure_policy [of ex_af ex_st0 TfpFailed ex_scipy_failed] a b
  show ?thesis
    by (simp add: ex_fields ex_fields2 ex_af_fields ex_scipy_failed_def dict_of_def)
qed

text \<open>
  Claim C8 says that the history also holds an entry for a call that the guard rejects.
  With the history switched on, the call at \<open>[NaN, 2]\<close> is not cached, returns the
  poisoned result, and leaves the history as it was.
\<close>

theorem history_of_rejected_call_counterexample:
  "objective_init Minuit True ex_kw_h = Inr (ex_h, ex_st0)
   \<and> return_history ex_h
   \<and> cache_get (cache ex_st0) [NaN, Fin 2] = None
   \<and> objective_call ex_h ex_st0 [NaN, Fin 2]
       = Inr (nan_result ex_h, warn (ParamIsNaN ''a'') ex_st0)
   \<and> history (warn (ParamIsNaN ''a'') ex_st0) = history ex_st0"
  by (simp add: ex_h_init eval_simps ex_h_fields ex_st0_eq)

text \<open>
  Claim C8, amended.  With the history switched on, the history is the ordered sequence of
  the likelihood invocations that the calls made: a call that misses the cache and passes
  the guard appends one entry (the parameters, and the value and gradient that
  \<^verbatim>\<open>_inner_fun_and_grad\<close> returned), and a call that hits the cache or is rejected by
  the guard appends nothing.
\<close>

theorem history_records_likelihood_calls:
  assumes "return_history self" and "fresh_instance kw self st0"
    and "run_calls self st0 xs = Inr (rs, st)"
    and "objective_call self st x = Inr (r, st1)"
  shows "map h_params (history st) = drop (length (lf_calls st0)) (lf_calls st)
       \<and> (if (memoize self \<and> cache_get (cache st) x \<noteq> None) \<or> \<not> accepts self x
          then history st1 = history st
          else \<exists>y g st'. inner_fun_and_grad self st (params_of self x) = Inr ((y, g), st')
                 \<and> history st1
                     = history st @ [\<lparr>h_params = params_of self x, h_y = y, h_grad = g\<rparr>])"
proof -
  from run_history [OF assms(1,3)] obtain new where
    "history st = history st0 @ new" "lf_calls st = lf_calls st0 @ map h_params new"
    by blast
  then have 1: "map h_params (history st) = drop (length (lf_calls st0)) (lf_calls st)"
    by (simp add: fresh_instance_fields [OF assms(2)])
  from call_history [OF assms(1,4)] have 2:
    "if (memoize self \<and> cache_get (cache st) x \<noteq> None) \<or> \<not> accepts self x
     then history st1 = history st
     else \<exists>y g st'. inner_fun_and_grad self st (params_of self x) = Inr ((y, g), st')
            \<and> history st1
                = history st @ [\<lparr>h_params = params_of self x, h_y = y, h_grad = g\<rparr>]"
    by (auto split: if_splits)
  from 1 2 show ?thesis by blast
qed

theorem history_records_likelihood_calls_witness:
  "return_history ex_h \<and> fresh_instance ex_kw_h ex_h ex_st0
   \<and> run_calls ex_h ex_st0 [[Fin 1, Fin 2]]
       = Inr ([\<lparr>res_fun = Fin 10, res_grad = [Fin 1, Fin 2]\<rparr>], ex_h1)
   \<and> objective_call ex_h ex_h1 [NaN, Fin 2]
       = Inr (nan_result ex_h, warn (ParamIsNaN ''a'') ex_h1)
   \<and> map h_params (history ex_h1) = drop (length (lf_calls ex_st0)) (lf_calls ex_h1)
   \<and> history (warn (ParamIsNaN ''a'') ex_h1) = history ex_h1"
proof -
  have h1: "return_history ex_h" by (simp add: ex_h_fields)
  have h4: "objective_call ex_h ex_h1 [NaN, Fin 2]
       = Inr (nan_result ex_h, warn (ParamIsNaN ''a'') ex_h1)"
    by (simp add: eval_simps ex_h_fields ex_h_run1(2))
  have na: "\<not> accepts ex_h [NaN, Fin 2]"
    by (simp add: accepts_def eval_simps ex_h_fields)
  from history_records_likelihood_calls [OF h1 ex_h_fresh ex_h_run1(1) h4] na
  show ?thesis using h1 ex_h_fresh ex_h_run1(1) h4 by simp
qed

text \<open>
  Claim C9 says that the default error step is 10% of the magnitude of the guess when
  that exceeds the floor.  For the guess \<open>a = -5\<close> it is the floor \<open>0.001\<close>, not
  \<open>0.5\<close>: the code multiplies the guess itself, not its absolute value.
\<close>

theorem error_hint_magnitude_counterexample:
  "objective_init Minuit True ex_kw_neg = Inr (ex_neg, ex_st0)
   \<and> optimizer_error ex_neg = None
   \<and> dict_to_array ex_neg (guess ex_neg) = Inr [Fin (- 5), Fin 1]
   \<and> minuit_error ex_neg = Inr [Fin (1 / 1000), Fin (1 / 10)]
   \<and> (1 / 1000 :: real) < (1 / 10) * \<bar>- 5\<bar>
   \<and> Fin (1 / 1000) \<noteq> Fin ((1 / 10) * \<bar>- 5\<bar>)"
  by (simp add: ex_neg_init minuit_error_def dict_to_array_def getitem_def ex_neg_fields
      default_error_def np_maximum_def)

text \<open>
  Claim C9, amended.  When no \<^verbatim>\<open>error\<close> option is given, the error step of every
  parameter is \<^verbatim>\<open>np.maximum(0.1 * guess, 0.001)\<close> with the signed guess: for a finite
  guess it is the larger of a tenth of the guess and \<open>0.001\<close>, hence \<open>0.1 * guess\<close>
  when that exceeds the floor and the floor otherwise; it is strictly positive for
  every guess that is not NaN, and NaN for a NaN guess.
\<close>

theorem error_hint_default:
  assumes "optimizer_error self = None"
    and "dict_to_array self (guess self) = Inr x_guess"
    and "i < length x_guess"
  shows "\<exists>e. minuit_error self = Inr e \<and> length e = length x_guess
     \<and> e ! i = np_maximum (fmul (x_guess ! i) (Fin (1 / 10))) (Fin (1 / 1000))
     \<and> (\<forall>g. x_guess ! i = Fin g \<longrightarrow> e ! i = Fin (max (g / 10) (1 / 1000)))
     \<and> (\<forall>g. x_guess ! i = Fin g \<and> 1 / 1000 < g / 10 \<longrightarrow> e ! i = Fin (g / 10))
     \<and> (\<forall>g. x_guess ! i = Fin g \<and> g / 10 \<le> 1 / 1000 \<longrightarrow> e ! i = Fin (1 / 1000))
     \<and> (\<not> isnan (x_guess ! i) \<longrightarrow> flt (Fin 0) (e ! i))
     \<and> (isnan (x_guess ! i) \<longrightarrow> isnan (e ! i))"
proof -
  let ?e = "default_error x_guess"
  have m: "minuit_error self = Inr ?e"
    using assms(1,2) by (simp add: minuit_error_def)
  have n: "?e ! i = np_maximum (fmul (x_guess ! i) (Fin (1 / 10))) (Fin (1 / 1000))"
    using assms(3) by (rule default_error_nth)
  have l: "length ?e = length x_guess" by (simp add: default_error_def)
  have f: "\<forall>g. x_guess ! i = Fin g \<longrightarrow> ?e ! i = Fin (max (g / 10) (1 / 1000))"
    by (auto simp: n np_maximum_def max_def)
  have p: "\<not> isnan (x_guess ! i) \<longrightarrow> flt (Fin 0) (?e ! i)"
    by (cases "x_guess ! i") (auto simp: n np_maximum_def inf_times_def)
  have q: "isnan (x_guess ! i) \<longrightarrow> isnan (?e ! i)"
    by (cases "x_guess ! i") (auto simp: n np_maximum_def)
  from m n l f p q show ?thesis
    by (intro exI [of _ ?e]) (auto simp: max_def)
qed

theorem error_hint_default_witness:
  "optimizer_error ex_neg = None
   \<and> dict_to_array ex_neg (guess ex_neg) = Inr [Fin (- 5), Fin 1]
   \<and> (1 :: nat) < length [Fin (- 5), Fin 1]
   \<and> [Fin (- 5), Fin 1] ! 1 = Fin 1 \<and> (1 / 1000 :: real) < 1 / 10
   \<and> \<not> isnan ([Fin (- 5), Fin 1] ! 1)
   \<and> (\<exists>e. minuit_error ex_neg = Inr e \<and> e ! 1 = Fin (1 / 10) \<and> flt (Fin 0) (e ! 1))"
proof -
  have h1: "optimizer_error ex_neg = None" by (simp add: ex_neg_fields)
  have h2: "dict_to_array ex_neg (guess ex_neg) = Inr [Fin (- 5), Fin 1]"
    by (simp add: dict_to_array_def getitem_def ex_neg_fields)
  have h3: "(1 :: nat) < length [Fin (- 5), Fin 1]" by simp
  from error_hint_default [OF h1 h2 h3] obtain e where
    e: "minuit_error ex_neg = Inr e"
    and f: "\<forall>g. [Fin (- 5), Fin 1] ! 1 = Fin g \<and> 1 / 1000 < g / 10 \<longrightarrow> e ! 1 = Fin (g / 10)"
    and p: "\<not> isnan ([Fin (- 5), Fin 1] ! 1) \<longrightarrow> flt (Fin 0) (e ! 1)"
    by blast
  from f have "e ! 1 = Fin (1 / 10)" by simp
  moreover from p have "flt (Fin 0) (e ! 1)" by simp
  ultimately show ?thesis using h1 h2 e by simp
qed

text \<open>
  Claim C10.  On every instance, memoizing or not, after any run of calls: a vector that
  decodes and is rejected by the guard is not in the cache, and calling the objective
  with it \<open>n\<close> times gives the poisoned result \<open>n\<close> times and the guard's warning
  \<open>n\<close> times, and leaves the cache and the log of likelihood invocations as they were.
  Every key of the cache passes the guard, and a call that changes the cache has invoked
  the likelihood.
\<close>

theorem rejected_call_leaves_cache:
  assumes "fresh_instance kw self st0"
    and "run_calls self st0 xs = Inr (rs, st)"
    and "length x = length (arg_names self)"
    and "\<exists>(k, v) \<in> set (params_of self x).
           isnan v \<or> (\<exists>b. map_of (bounds self) k = Some b \<and> \<not> in_bound b v)"
  shows "(\<exists>w st'. run_calls self st (replicate n x) = Inr (replicate n (nan_result self), st')
            \<and> st' = st\<lparr>warnings := warnings st @ replicate n w\<rparr>
            \<and> cache st' = cache st \<and> lf_calls st' = lf_calls st)
       \<and> cache_get (cache st) x = None
       \<and> (\<forall>(k, r) \<in> set (cache st). accepts self k)
       \<and> (\<forall>y r st1. objective_call self st y = Inr (r, st1) \<and> cache st1 \<noteq> cache st
             \<longrightarrow> lf_calls st1 = lf_calls st @ [params_of self y] \<and> accepts self y)"
proof -
  from assms(4) obtain w where
    w: "check_params (bounds self) (params_of self x) = Some w"
    unfolding guard_rejects_iff by blast
  have inv: "cache_inv self st"
    using cache_inv_fresh [OF assms(1)] assms(2) by (rule cache_inv_run)
  have "run_calls self st (replicate n x) =
      Inr (replicate n (nan_result self), st\<lparr>warnings := warnings st @ replicate n w\<rparr>)"
    using assms(3) w inv by (rule rejected_run)
  then have 1: "\<exists>w st'. run_calls self st (replicate n x) = Inr (replicate n (nan_result self), st')
            \<and> st' = st\<lparr>warnings := warnings st @ replicate n w\<rparr>
            \<and> cache st' = cache st \<and> lf_calls st' = lf_calls st"
    by (intro exI [of _ w] exI [of _ "st\<lparr>warnings := warnings st @ replicate n w\<rparr>"]) simp
  from w have "\<not> accepts self x" by (simp add: accepts_def)
  with inv have 2: "cache_get (cache st) x = None" by (rule cache_inv_miss)
  from inv have 3: "\<forall>(k, r) \<in> set (cache st). accepts self k"
    by (simp add: cache_inv_def list_all_iff)
  have 4: "\<forall>y r st1. objective_call self st y = Inr (r, st1) \<and> cache st1 \<noteq> cache st
             \<longrightarrow> lf_calls st1 = lf_calls st @ [params_of self y] \<and> accepts self y"
    using call_cache_grows by blast
  from 1 2 3 4 show ?thesis by blast
qed

theorem rejected_call_leaves_cache_witness:
  "fresh_instance ex_kw ex_self ex_st0
   \<and> run_calls ex_self ex_st0 [[Fin 1, Fin 2]]
       = Inr ([\<lparr>res_fun = Fin 10, res_grad = [Fin 1, Fin 2]\<rparr>], ex_st1)
   \<and> length [Fin 1, Fin (- 1)] = length (arg_names ex_self)
   \<and> (''s_rate_multiplier'', Fin (- 1)) \<in> set (params_of ex_self [Fin 1, Fin (- 1)])
   \<and> map_of (bounds ex_self) ''s_rate_multiplier'' = Some (Some LOWER_RATE_MULTIPLIER_BOUND, None)
   \<and> \<not> in_bound (Some LOWER_RATE_MULTIPLIER_BOUND, None) (Fin (- 1))
   \<and> (\<exists>w st'. run_calls ex_self ex_st1 (replicate 2 [Fin 1, Fin (- 1)])
                  = Inr (replicate 2 (nan_result ex_self), st')
          \<and> st' = ex_st1\<lparr>warnings := warnings ex_st1 @ replicate 2 w\<rparr>
          \<and> cache st' = cache ex_st1 \<and> lf_calls st' = lf_calls ex_st1)
   \<and> cache_get (cache ex_st1) [Fin 1, Fin (- 1)] = None"
proof -
  have h3: "length [Fin 1, Fin (- 1)] = length (arg_names ex_self)"
    by (simp add: ex_fields)
  have mem: "(''s_rate_multiplier'', Fin (- 1)) \<in> set (params_of ex_self [Fin 1, Fin (- 1)])"
    by (simp add: eval_simps ex_fields)
  have b: "map_of (bounds ex_self) ''s_rate_multiplier'' = Some (Some LOWER_RATE_MULTIPLIER_BOUND, None)"
    by (simp add: ex_fields)
  have out: "\<not> in_bound (Some LOWER_RATE_MULTIPLIER_BOUND, None) (Fin (- 1))"
    by (simp add: in_bound_def LOWER_RATE_MULTIPLIER_BOUND_def)
  from mem b out have h4: "\<exists>(k, v) \<in> set (params_of ex_self [Fin 1, Fin (- 1)]).
      isnan v \<or> (\<exists>b. map_of (bounds ex_self) k = Some b \<and> \<not> in_bound b v)"
    by (intro bexI [of _ "(''s_rate_multiplier'', Fin (- 1))"]) simp_all
  from rejected_call_leaves_cache [OF ex_fresh ex_run1(1) h3 h4, of 2]
  show ?thesis using ex_fresh ex_run1(1) h3 mem b out by blast
qed

end
